theory Spec2Isabelle
  imports Main "HOL-Library.Sublist"
begin

section \<open>The DOCX splitter: a shallow embedding of \<^verbatim>\<open>test3.py\<close> and \<^verbatim>\<open>test2.py\<close>\<close>

text \<open>
  The repository holds two revisions of one script that splits a Word document at its
  headings: \<^verbatim>\<open>src/test2.py\<close> and its later revision \<^verbatim>\<open>src/test3.py\<close>.
  Both define \<^verbatim>\<open>iter_block_items\<close>, \<^verbatim>\<open>copy_numbering\<close>, \<^verbatim>\<open>copy_paragraph\<close>,
  \<^verbatim>\<open>copy_table\<close> and \<^verbatim>\<open>split_docx_by_heading_with_images\<close>.
  The definitions below follow \<^verbatim>\<open>test3.py\<close> and keep its names: it is the revision
  that the specification describes wherever the two differ (the three notes for
  drawings that are not images, the early return for a paragraph without text and
  drawings, the skipped empty section). Where \<^verbatim>\<open>test2.py\<close> is written differently in
  the segmenter or in \<^verbatim>\<open>copy_paragraph\<close>, its variant is embedded too, under the same
  name with the suffix \<open>_test2\<close>; \<^verbatim>\<open>copy_numbering\<close>, the \<^verbatim>\<open>_Cell\<close> branch of
  \<^verbatim>\<open>copy_table\<close>, the saving of the sections and the removal of the scratch directory
  are the same code in both.

  Conventions.
  \<^item> A Python \<^verbatim>\<open>str\<close> is a \<open>string\<close>; a \<open>char\<close> stands for the code point of the
    same number, so only code points below 256 are represented.
  \<^item> An exception is a value of type \<open>error\<close>. Python mutates the target document and
    the file system in place, so a function that raises still returns the objects as
    the exception leaves them.
  \<^item> What python-docx, lxml and the operating system do is modelled at the level the
    scripts use them: a paragraph is its style name, alignment, numbering properties and
    runs; a run is its text, character formatting and drawings.
\<close>

subsection \<open>Python strings\<close>

text \<open>\<^verbatim>\<open>str.isspace\<close> on the code points below 256.\<close>

definition isspace :: "char \<Rightarrow> bool" where
  "isspace c \<longleftrightarrow> c \<in> set [CHR 0x09, CHR 0x0A, CHR 0x0B, CHR 0x0C, CHR 0x0D,
     CHR 0x1C, CHR 0x1D, CHR 0x1E, CHR 0x1F, CHR 0x20, CHR 0x85, CHR 0xA0]"

definition lstrip :: "string \<Rightarrow> string" where
  "lstrip s = dropWhile isspace s"

definition rstrip :: "string \<Rightarrow> string" where
  "rstrip s = rev (dropWhile isspace (rev s))"

definition strip :: "string \<Rightarrow> string" where
  "strip s = rstrip (lstrip s)"

text \<open>\<^verbatim>\<open>str.isalnum\<close> on the code points below 256: the ASCII digits and letters, and the
  letters, superscript digits and fractions of Latin-1.\<close>

definition isalnum :: "char \<Rightarrow> bool" where
  "isalnum c \<longleftrightarrow>
     (let n = (of_char c :: nat) in
        (48 \<le> n \<and> n \<le> 57) \<or> (65 \<le> n \<and> n \<le> 90) \<or> (97 \<le> n \<and> n \<le> 122) \<or>
        n \<in> set [170, 178, 179, 181, 185, 186, 188, 189, 190] \<or>
        (192 \<le> n \<and> n \<le> 214) \<or> (216 \<le> n \<and> n \<le> 246) \<or> (248 \<le> n \<and> n \<le> 255))"

text \<open>\<^verbatim>\<open>sep.join(parts)\<close>.\<close>

fun join :: "string \<Rightarrow> string list \<Rightarrow> string" where
  "join sep [] = []"
| "join sep [x] = x"
| "join sep (x # y # ys) = x @ sep @ join sep (y # ys)"

text \<open>The decimal digits of a natural number, as \<^verbatim>\<open>str(n)\<close> and the format
  \<^verbatim>\<open>{n}\<close> print them; \<^verbatim>\<open>{n:02d}\<close> pads them with zeros to two characters.\<close>

definition digit_char :: "nat \<Rightarrow> char" where
  "digit_char d = ''0123456789'' ! d"

fun str_nat :: "nat \<Rightarrow> string" where
  "str_nat n = (if n < 10 then [digit_char n] else str_nat (n div 10) @ [digit_char (n mod 10)])"

declare str_nat.simps [simp del]

definition format_02d :: "nat \<Rightarrow> string" where
  "format_02d n = replicate (2 - length (str_nat n)) (CHR ''0'') @ str_nat n"

text \<open>The number that a string of decimal digits stands for.\<close>

definition digit_val :: "char \<Rightarrow> nat" where
  "digit_val c = of_char c - 48"

definition nat_of_digits :: "string \<Rightarrow> nat" where
  "nat_of_digits s = foldl (\<lambda>a c. 10 * a + digit_val c) 0 s"

text \<open>\<^verbatim>\<open>xs[start:end]\<close> for indices that are not negative.\<close>

definition slice :: "'a list \<Rightarrow> nat \<Rightarrow> nat \<Rightarrow> 'a list" where
  "slice xs start stop = take (stop - start) (drop start xs)"

subsection \<open>The source document\<close>

datatype error = IndexError | KeyError | TypeError | ValueError | AttributeError
  | OSError | PackageError

datatype alignment = LEFT | CENTER | RIGHT | JUSTIFY | DISTRIBUTE

datatype underline = Single bool | WD_UNDERLINE nat

text \<open>A \<^verbatim>\<open>wp:extent\<close> element with its \<^verbatim>\<open>cx\<close> attribute, and a \<^verbatim>\<open>w:drawing\<close>
  element: the \<^verbatim>\<open>r:embed\<close> attribute of each \<^verbatim>\<open>a:blip\<close> below it, in document order,
  and its first \<^verbatim>\<open>wp:extent\<close>, if any.\<close>

record extent =
  cx :: "string option"

record drawing =
  blips :: "string option list"
  extent_elem :: "extent option"

record run =
  rtext :: string
  bold :: "bool option"
  italic :: "bool option"
  underline :: "underline option"
  font_name :: "string option"
  font_size :: "int option"
  font_color :: "(nat \<times> nat \<times> nat) option"
  drawings :: "drawing list"

text \<open>The \<^verbatim>\<open>w:numPr\<close> element and the \<^verbatim>\<open>w:pPr\<close> element that may hold one.\<close>

record num_pr =
  numId :: int
  ilvl :: int

record p_pr =
  numPr :: "num_pr option"

record para =
  style :: string
  alignment :: "alignment option"
  pPr :: "p_pr option"
  runs :: "run list"

text \<open>A table: its style name, autofit flag, the width of each column, and its rows; a
  row is the list of its cells, a cell the list of its blocks.\<close>

datatype block = Paragraph para | Table tbl
  and tbl = Tbl (tstyle: string) (autofit: bool) (columns: "int option list")
              (rows: "block list list list")

text \<open>\<^verbatim>\<open>Paragraph.text\<close>: the texts of the runs, concatenated. (Text inside a
  hyperlink, which later versions of python-docx count as well but which is in no run
  of \<^verbatim>\<open>Paragraph.runs\<close>, is left out of the model.)\<close>

definition para_text :: "para \<Rightarrow> string" where
  "para_text p = concat (map rtext (runs p))"

text \<open>\<^verbatim>\<open>_Cell.text\<close>: the texts of the cell's own paragraphs, joined by a newline.\<close>

fun cell_paragraphs :: "block list \<Rightarrow> para list" where
  "cell_paragraphs [] = []"
| "cell_paragraphs (Paragraph p # bs) = p # cell_paragraphs bs"
| "cell_paragraphs (Table t # bs) = cell_paragraphs bs"

definition cell_text :: "block list \<Rightarrow> string" where
  "cell_text c = join [CHR 0x0A] (map para_text (cell_paragraphs c))"

subsection \<open>Segmentation at headings\<close>

text \<open>\<^verbatim>\<open>isinstance(block, Paragraph) and block.style.name == heading_style\<close>\<close>

fun is_heading :: "string \<Rightarrow> block \<Rightarrow> bool" where
  "is_heading heading_style (Paragraph p) = (style p = heading_style)"
| "is_heading heading_style (Table t) = False"

text \<open>The indices at which a section starts, with the number of blocks as the end marker.
  The script computes them after it has returned for an empty block list, so the list
  of blocks is given as its first block and the rest.\<close>

definition section_indices :: "block \<Rightarrow> block list \<Rightarrow> string \<Rightarrow> nat list" where
  "section_indices b bs heading_style =
     (let blocks = b # bs in
      (if \<not> is_heading heading_style b then [0] else []) @
      filter (\<lambda>i. is_heading heading_style (blocks ! i)) [0..<length blocks] @
      [length blocks])"

text \<open>The title of a section, from its first block and the loop counter \<open>i\<close>.\<close>

definition section_title :: "string \<Rightarrow> block \<Rightarrow> nat \<Rightarrow> string" where
  "section_title heading_style first_block i =
     (let title = (if is_heading heading_style first_block
                   then (case first_block of Paragraph p \<Rightarrow> strip (para_text p) | Table t \<Rightarrow> [])
                   else ''Introduction'')
      in if title = [] then ''Section_'' @ str_nat (i + 1) else title)"

text \<open>One round of the loop over \<^verbatim>\<open>range(len(section_indices) - 1)\<close>, up to the title:
  \<open>None\<close> is \<^verbatim>\<open>continue\<close>, and \<^verbatim>\<open>section_blocks[0]\<close> raises on an empty slice.
  \<^verbatim>\<open>test2.py\<close> has no \<^verbatim>\<open>continue\<close>.\<close>

definition section_at ::
    "block list \<Rightarrow> string \<Rightarrow> nat list \<Rightarrow> nat \<Rightarrow> error + (string \<times> block list) option" where
  "section_at blocks heading_style idx i =
     (let start = idx ! i; stop = idx ! (i + 1) in
      if start = stop then Inr None
      else (let section_blocks = slice blocks start stop in
            case section_blocks of
              [] \<Rightarrow> Inl IndexError
            | first_block # _ \<Rightarrow>
                Inr (Some (section_title heading_style first_block i, section_blocks))))"

definition section_at_test2 ::
    "block list \<Rightarrow> string \<Rightarrow> nat list \<Rightarrow> nat \<Rightarrow> error + (string \<times> block list) option" where
  "section_at_test2 blocks heading_style idx i =
     (let start = idx ! i; stop = idx ! (i + 1) in
      let section_blocks = slice blocks start stop in
      case section_blocks of
        [] \<Rightarrow> Inl IndexError
      | first_block # _ \<Rightarrow>
          Inr (Some (section_title heading_style first_block i, section_blocks)))"

text \<open>The loop: the sections found, in order, or the first exception.\<close>

fun collect :: "(nat \<Rightarrow> error + 'a option) \<Rightarrow> nat list \<Rightarrow> error + 'a list" where
  "collect f [] = Inr []"
| "collect f (i # is) =
     (case f i of
        Inl e \<Rightarrow> Inl e
      | Inr r \<Rightarrow>
          (case collect f is of
             Inl e \<Rightarrow> Inl e
           | Inr rs \<Rightarrow> Inr ((case r of None \<Rightarrow> [] | Some x \<Rightarrow> [x]) @ rs)))"

text \<open>The segmenter: no section for no blocks, else one per pair of neighbouring
  indices.\<close>

definition segment :: "block list \<Rightarrow> string \<Rightarrow> error + (string \<times> block list) list" where
  "segment blocks heading_style =
     (case blocks of
        [] \<Rightarrow> Inr []
      | b # bs \<Rightarrow>
          (let idx = section_indices b bs heading_style in
           collect (section_at blocks heading_style idx) [0..<length idx - 1]))"

definition segment_test2 :: "block list \<Rightarrow> string \<Rightarrow> error + (string \<times> block list) list" where
  "segment_test2 blocks heading_style =
     (case blocks of
        [] \<Rightarrow> Inr []
      | b # bs \<Rightarrow>
          (let idx = section_indices b bs heading_style in
           collect (section_at_test2 blocks heading_style idx) [0..<length idx - 1]))"

subsection \<open>The target document\<close>

text \<open>The argument of \<^verbatim>\<open>Inches(...)\<close> is an \<^verbatim>\<open>int\<close> or the float that the true division
  \<^verbatim>\<open>a / b\<close> of two ints gives; the quotient is kept as the pair of its operands, so no
  floating-point arithmetic is modelled.\<close>

datatype number = PyInt int | TrueDiv int int

datatype length = Inches number

record picture =
  image_path :: string
  width :: length

record t_run =
  t_text :: string
  t_bold :: "bool option"
  t_italic :: "bool option"
  t_underline :: "underline option"
  t_font_name :: "string option"
  t_font_size :: "int option"
  t_font_color :: "(nat \<times> nat \<times> nat) option"
  t_picture :: "picture option"

record t_para =
  t_style :: "string option"
  t_alignment :: "alignment option"
  t_pPr :: "p_pr option"
  t_runs :: "t_run list"

datatype t_block = TParagraph t_para | TTable t_tbl
  and t_tbl = TTbl (tt_style: "string option") (tt_autofit: bool) (tt_columns: "int option list")
                (tt_rows: "t_block list list list")

text \<open>What \<^verbatim>\<open>copy_paragraph\<close> and \<^verbatim>\<open>copy_table\<close> write into: a document or a table
  cell, with the style names of the document it belongs to.\<close>

datatype container_kind = Document | Cell

record container =
  kind :: container_kind
  styles :: "string list"
  content :: "t_block list"

text \<open>\<^verbatim>\<open>add_paragraph()\<close> makes a paragraph with nothing set; \<^verbatim>\<open>add_paragraph(text)\<close>
  and \<^verbatim>\<open>add_run(text)\<close> make a run with nothing but its text set, and
  \<^verbatim>\<open>add_paragraph\<close> adds no run for an empty text.\<close>

definition empty_para :: t_para where
  "empty_para = \<lparr>t_style = None, t_alignment = None, t_pPr = None, t_runs = []\<rparr>"

definition new_run :: "string \<Rightarrow> t_run" where
  "new_run s = \<lparr>t_text = s, t_bold = None, t_italic = None, t_underline = None,
     t_font_name = None, t_font_size = None, t_font_color = None, t_picture = None\<rparr>"

definition new_para :: "string \<Rightarrow> t_para" where
  "new_para s = empty_para\<lparr>t_runs := (if s = [] then [] else [new_run s])\<rparr>"

definition add_paragraph :: "container \<Rightarrow> t_para \<Rightarrow> container" where
  "add_paragraph c p = c\<lparr>content := content c @ [TParagraph p]\<rparr>"

definition add_run :: "t_para \<Rightarrow> t_run \<Rightarrow> t_para" where
  "add_run p r = p\<lparr>t_runs := t_runs p @ [r]\<rparr>"

text \<open>\<^verbatim>\<open>hasattr(target_container, 'add_paragraph')\<close>: documents and cells both have
  the method.\<close>

fun has_add_paragraph :: "container_kind \<Rightarrow> bool" where
  "has_add_paragraph Document = True"
| "has_add_paragraph Cell = True"

subsection \<open>The package, the file system and the environment\<close>

text \<open>A part of the source package that a relationship id leads to: an
  \<^verbatim>\<open>ImagePart\<close> with its bytes and file extension, or a part of another class.\<close>

datatype part = ImagePart (blob: "nat list") (default_ext: string) | OtherPart (blob: "nat list")

record page_geometry =
  page_height :: "int option"
  page_width :: "int option"
  left_margin :: "int option"
  right_margin :: "int option"
  top_margin :: "int option"
  bottom_margin :: "int option"

record document =
  body :: "block list"
  related_parts :: "(string \<times> part) list"
  sections :: "page_geometry list"

text \<open>A document made by \<^verbatim>\<open>Document_factory()\<close>: its geometry is \<open>None\<close> while it is
  the template's own.\<close>

record t_document =
  t_geometry :: "page_geometry option"
  t_body :: "t_block list"

datatype file_data = Blob "nat list" | Docx t_document

text \<open>The state the script changes outside its own objects: the directories and files
  that exist, and the calls made to \<^verbatim>\<open>progress_callback\<close>.\<close>

record world =
  dirs :: "string list"
  files :: "(string \<times> file_data) list"
  progress :: "(nat \<times> nat) list"

text \<open>What the script cannot decide: whether the operating system lets a path be
  created or written, what \<^verbatim>\<open>Document_factory(docx_path)\<close> reads (\<open>None\<close> when it
  raises), and the style names of the template behind \<^verbatim>\<open>Document_factory()\<close>.\<close>

record env =
  writable :: "string \<Rightarrow> bool"
  package_reader :: "string \<Rightarrow> document option"
  template_styles :: "string list"

text \<open>\<^verbatim>\<open>os.path.join\<close> of two components, \<^verbatim>\<open>os.path.exists\<close>,
  \<^verbatim>\<open>os.makedirs(path, exist_ok=True)\<close>, writing a file (\<^verbatim>\<open>open(path, "wb")\<close> and
  \<^verbatim>\<open>Document.save\<close>) and \<^verbatim>\<open>shutil.rmtree\<close>, on POSIX paths.\<close>

definition path_join :: "string \<Rightarrow> string \<Rightarrow> string" where
  "path_join a b =
     (if b \<noteq> [] \<and> hd b = CHR ''/'' then b
      else if a = [] \<or> last a = CHR ''/'' then a @ b
      else a @ ''/'' @ b)"

definition path_exists :: "world \<Rightarrow> string \<Rightarrow> bool" where
  "path_exists w p \<longleftrightarrow> p \<in> set (dirs w) \<or> p \<in> set (map fst (files w))"

definition makedirs :: "env \<Rightarrow> world \<Rightarrow> string \<Rightarrow> error option \<times> world" where
  "makedirs env w p =
     (if p \<in> set (dirs w) then (None, w)
      else if p \<in> set (map fst (files w)) then (Some OSError, w)
      else if writable env p then (None, w\<lparr>dirs := dirs w @ [p]\<rparr>)
      else (Some OSError, w))"

definition write_file :: "env \<Rightarrow> world \<Rightarrow> string \<Rightarrow> file_data \<Rightarrow> error option \<times> world" where
  "write_file env w p d =
     (if p \<in> set (dirs w) \<or> \<not> writable env p then (Some OSError, w)
      else (None, w\<lparr>files := (p, d) # filter (\<lambda>f. fst f \<noteq> p) (files w)\<rparr>))"

definition under :: "string \<Rightarrow> string \<Rightarrow> bool" where
  "under p q \<longleftrightarrow> prefix (p @ ''/'') q"

definition rmtree :: "world \<Rightarrow> string \<Rightarrow> error option \<times> world" where
  "rmtree w p =
     (if p \<in> set (dirs w)
      then (None, w\<lparr>dirs := filter (\<lambda>d. d \<noteq> p \<and> \<not> under p d) (dirs w),
                     files := filter (\<lambda>f. \<not> under p (fst f)) (files w)\<rparr>)
      else (Some OSError, w))"

subsection \<open>Copying a paragraph\<close>

text \<open>\<^verbatim>\<open>copy_numbering\<close>. \<^verbatim>\<open>target_pPr.append(numPr)\<close> is lxml's \<^verbatim>\<open>append\<close>, and
  \<^verbatim>\<open>numPr\<close> is the very element found under the source's \<^verbatim>\<open>w:pPr\<close>: an element has one
  parent, so appending it to the target takes it out of the source. The function
  returns both paragraphs as the call leaves them.\<close>

definition copy_numbering :: "para \<Rightarrow> t_para \<Rightarrow> para \<times> t_para" where
  "copy_numbering source_para target_para =
     (case pPr source_para of
        None \<Rightarrow> (source_para, target_para)
      | Some source_pPr \<Rightarrow>
          (case numPr source_pPr of
             None \<Rightarrow> (source_para, target_para)
           | Some n \<Rightarrow>
               (let target_pPr = (case t_pPr target_para of
                                    None \<Rightarrow> \<lparr>numPr = None\<rparr>
                                  | Some tp \<Rightarrow> tp);
                    target_pPr = (if numPr target_pPr \<noteq> None
                                  then target_pPr\<lparr>numPr := None\<rparr> else target_pPr)
                in (source_para\<lparr>pPr := Some (source_pPr\<lparr>numPr := None\<rparr>)\<rparr>,
                    target_para\<lparr>t_pPr := Some (target_pPr\<lparr>numPr := Some n\<rparr>)\<rparr>))))"

text \<open>The run that \<^verbatim>\<open>copy_paragraph\<close> adds for a source run: its text and its character
  formatting. \<^verbatim>\<open>run.font\<close> and \<^verbatim>\<open>run.font.color\<close> are objects, hence true; the colour
  is set when \<^verbatim>\<open>rgb\<close> is not \<^verbatim>\<open>None\<close> and stays \<^verbatim>\<open>None\<close> otherwise.\<close>

definition copy_run :: "run \<Rightarrow> t_run" where
  "copy_run r = \<lparr>t_text = rtext r, t_bold = bold r, t_italic = italic r,
     t_underline = underline r, t_font_name = font_name r, t_font_size = font_size r,
     t_font_color = font_color r, t_picture = None\<rparr>"

text \<open>The three notes of \<^verbatim>\<open>test3.py\<close>, the run \<^verbatim>\<open>add_run(note)\<close> with
  \<^verbatim>\<open>font.italic = True\<close>, and the run \<^verbatim>\<open>add_run().add_picture(img_path, width=width)\<close>.\<close>

definition complex_note :: string where
  "complex_note = [CHR 0x0A] @
     ''[Note: A complex graphical object (e.g., a chart or diagram) was here and could not be copied.]''
     @ [CHR 0x0A]"

definition broken_link_note :: string where
  "broken_link_note = [CHR 0x0A] @
     ''[Note: A graphical object with a broken link was here and could not be copied.]''
     @ [CHR 0x0A]"

definition shape_note :: string where
  "shape_note = [CHR 0x0A] @
     ''[Note: A shape or other drawing object was here and could not be copied.]''
     @ [CHR 0x0A]"

definition placeholder_run :: "string \<Rightarrow> t_run" where
  "placeholder_run note = (new_run note)\<lparr>t_italic := Some True\<rparr>"

definition picture_run :: "string \<Rightarrow> length \<Rightarrow> t_run" where
  "picture_run img_path w = (new_run [])\<lparr>t_picture := Some \<lparr>image_path = img_path, width = w\<rparr>\<rparr>"

text \<open>\<^verbatim>\<open>int(s)\<close> for a string: white space around, an optional sign, and decimal digits
  that single underscores may separate; \<open>None\<close> is \<^verbatim>\<open>ValueError\<close>. (The interpreter's
  limit on the number of digits is not modelled.)\<close>

definition int_space :: "char \<Rightarrow> bool" where
  "int_space c \<longleftrightarrow> c \<in> set [CHR 0x09, CHR 0x0A, CHR 0x0B, CHR 0x0C, CHR 0x0D, CHR 0x20,
     CHR 0x85, CHR 0xA0]"

definition isdigit :: "char \<Rightarrow> bool" where
  "isdigit c \<longleftrightarrow> 48 \<le> (of_char c :: nat) \<and> (of_char c :: nat) \<le> 57"

fun digits_value :: "nat \<Rightarrow> string \<Rightarrow> nat option" where
  "digits_value acc [] = Some acc"
| "digits_value acc (c # cs) =
     (if isdigit c then digits_value (10 * acc + (of_char c - 48)) cs
      else if c = CHR ''_'' \<and> cs \<noteq> [] \<and> isdigit (hd cs) then digits_value acc cs
      else None)"

definition parse_digits :: "string \<Rightarrow> nat option" where
  "parse_digits s =
     (case s of [] \<Rightarrow> None | c # cs \<Rightarrow> if isdigit c then digits_value 0 s else None)"

definition py_int :: "string \<Rightarrow> int option" where
  "py_int s =
     (let t = rev (dropWhile int_space (rev (dropWhile int_space s))) in
      case t of
        [] \<Rightarrow> None
      | c # cs \<Rightarrow>
          if c = CHR ''-'' then map_option (\<lambda>n. - int n) (parse_digits cs)
          else if c = CHR ''+'' then map_option int (parse_digits cs)
          else map_option int (parse_digits t))"

text \<open>The image file is written unless a file of its name is there already:
  \<^verbatim>\<open>if not os.path.exists(img_path): with open(img_path, "wb") as f: f.write(image_bytes)\<close>\<close>

definition extract_image :: "env \<Rightarrow> world \<Rightarrow> string \<Rightarrow> nat list \<Rightarrow> error option \<times> world" where
  "extract_image env w img_path image_bytes =
     (if \<not> path_exists w img_path then write_file env w img_path (Blob image_bytes)
      else (None, w))"

text \<open>The body of the loop over the drawings of a run in \<^verbatim>\<open>test3.py\<close>. \<^verbatim>\<open>KeyError\<close> is
  caught around the whole image branch, \<^verbatim>\<open>AttributeError\<close> and \<^verbatim>\<open>ValueError\<close> around
  the reading of the extent; \<^verbatim>\<open>int(None)\<close> raises \<^verbatim>\<open>TypeError\<close>, which nothing catches,
  and neither is a failure to write the image file.\<close>

definition copy_drawing ::
    "env \<Rightarrow> (string \<times> part) list \<Rightarrow> string \<Rightarrow> drawing \<Rightarrow> t_para \<Rightarrow> world
      \<Rightarrow> error option \<times> t_para \<times> world" where
  "copy_drawing env rel temp_img_dir d target_para w =
     (let rIds = blips d;
          rId = (case rIds of [] \<Rightarrow> None | b # _ \<Rightarrow> b) in
      case rId of
        None \<Rightarrow> (None, add_run target_para (placeholder_run shape_note), w)
      | Some rid \<Rightarrow>
          if rid = [] then (None, add_run target_para (placeholder_run shape_note), w)
          else
            (case map_of rel rid of
               None \<Rightarrow> (None, add_run target_para (placeholder_run broken_link_note), w)
             | Some (OtherPart _) \<Rightarrow>
                 (None, add_run target_para (placeholder_run complex_note), w)
             | Some (ImagePart image_bytes ext) \<Rightarrow>
                 (let img_path = path_join temp_img_dir (rid @ ''.'' @ ext) in
                  case extract_image env w img_path image_bytes of
                    (Some e, w') \<Rightarrow> (Some e, target_para, w')
                  | (None, w') \<Rightarrow>
                      (case extent_elem d of
                         None \<Rightarrow>
                           (None, add_run target_para (picture_run img_path (Inches (PyInt 3))), w')
                       | Some x \<Rightarrow>
                           (case cx x of
                              None \<Rightarrow> (Some TypeError, target_para, w')
                            | Some s \<Rightarrow>
                                (case py_int s of
                                   None \<Rightarrow>
                                     (None, add_run target_para
                                        (picture_run img_path (Inches (PyInt 3))), w')
                                 | Some n \<Rightarrow>
                                     (None, add_run target_para
                                        (picture_run img_path (Inches (TrueDiv n 914400))), w')))))))"

fun copy_drawings ::
    "env \<Rightarrow> (string \<times> part) list \<Rightarrow> string \<Rightarrow> drawing list \<Rightarrow> t_para \<Rightarrow> world
      \<Rightarrow> error option \<times> t_para \<times> world" where
  "copy_drawings env rel temp_img_dir [] target_para w = (None, target_para, w)"
| "copy_drawings env rel temp_img_dir (d # ds) target_para w =
     (case copy_drawing env rel temp_img_dir d target_para w of
        (Some e, target_para', w') \<Rightarrow> (Some e, target_para', w')
      | (None, target_para', w') \<Rightarrow> copy_drawings env rel temp_img_dir ds target_para' w')"

text \<open>The loop over the runs of the source paragraph.\<close>

fun copy_runs ::
    "env \<Rightarrow> (string \<times> part) list \<Rightarrow> string \<Rightarrow> run list \<Rightarrow> t_para \<Rightarrow> world
      \<Rightarrow> error option \<times> t_para \<times> world" where
  "copy_runs env rel temp_img_dir [] target_para w = (None, target_para, w)"
| "copy_runs env rel temp_img_dir (r # rs) target_para w =
     (case copy_drawings env rel temp_img_dir (drawings r) (add_run target_para (copy_run r)) w of
        (Some e, target_para', w') \<Rightarrow> (Some e, target_para', w')
      | (None, target_para', w') \<Rightarrow> copy_runs env rel temp_img_dir rs target_para' w')"

text \<open>\<^verbatim>\<open>copy_paragraph\<close> of \<^verbatim>\<open>test3.py\<close>; \<open>rel\<close> is
  \<^verbatim>\<open>source_para.part.related_parts\<close>. The result is the exception raised, if any, the
  source paragraph, the target container and the world after the call.\<close>

definition copy_paragraph ::
    "env \<Rightarrow> (string \<times> part) list \<Rightarrow> para \<Rightarrow> container \<Rightarrow> string \<Rightarrow> world
      \<Rightarrow> error option \<times> para \<times> container \<times> world" where
  "copy_paragraph env rel source_para target_container temp_img_dir w =
     (if strip (para_text source_para) = [] \<and>
         \<not> list_ex (\<lambda>r. drawings r \<noteq> []) (runs source_para)
      then (None, source_para,
            (if has_add_paragraph (kind target_container)
             then add_paragraph target_container empty_para else target_container), w)
      else
        (let target_para = empty_para\<lparr>t_style := Some (style source_para),
                                       t_alignment := alignment source_para\<rparr> in
         case copy_numbering source_para target_para of
           (source_para', target_para) \<Rightarrow>
             (case copy_runs env rel temp_img_dir (runs source_para) target_para w of
                (err, target_para, w') \<Rightarrow>
                  (err, source_para', add_paragraph target_container target_para, w'))))"

text \<open>\<^verbatim>\<open>copy_paragraph\<close> of \<^verbatim>\<open>test2.py\<close>. It returns early only for a paragraph that has
  no run at all, loops over every \<^verbatim>\<open>a:blip\<close> of a drawing, and catches \<^verbatim>\<open>KeyError\<close> and
  \<^verbatim>\<open>AttributeError\<close> around the whole image branch, printing a warning: a missing
  relationship, a part without \<^verbatim>\<open>default_ext\<close> and a drawing without \<^verbatim>\<open>wp:extent\<close>
  all end there. \<^verbatim>\<open>ValueError\<close> from \<^verbatim>\<open>int(cx)\<close> is not caught.\<close>

definition copy_blip_test2 ::
    "env \<Rightarrow> (string \<times> part) list \<Rightarrow> string \<Rightarrow> drawing \<Rightarrow> string option \<Rightarrow> t_para \<Rightarrow> world
      \<Rightarrow> error option \<times> t_para \<times> world" where
  "copy_blip_test2 env rel temp_img_dir d rId target_para w =
     (case rId of
        None \<Rightarrow> (None, target_para, w)
      | Some rid \<Rightarrow>
          if rid = [] then (None, target_para, w)
          else
            (case map_of rel rid of
               None \<Rightarrow> (None, target_para, w)
             | Some (OtherPart _) \<Rightarrow> (None, target_para, w)
             | Some (ImagePart image_bytes ext) \<Rightarrow>
                 (let img_path = path_join temp_img_dir (rid @ ''.'' @ ext) in
                  case extract_image env w img_path image_bytes of
                    (Some e, w') \<Rightarrow> (Some e, target_para, w')
                  | (None, w') \<Rightarrow>
                      (case extent_elem d of
                         None \<Rightarrow> (None, target_para, w')
                       | Some x \<Rightarrow>
                           (case cx x of
                              None \<Rightarrow>
                                (None, add_run target_para
                                   (picture_run img_path (Inches (PyInt 3))), w')
                            | Some s \<Rightarrow>
                                if s = [] then
                                  (None, add_run target_para
                                     (picture_run img_path (Inches (PyInt 3))), w')
                                else
                                  (case py_int s of
                                     None \<Rightarrow> (Some ValueError, target_para, w')
                                   | Some n \<Rightarrow>
                                       (None, add_run target_para
                                          (picture_run img_path (Inches (TrueDiv n 914400))), w')))))))"

fun copy_blips_test2 ::
    "env \<Rightarrow> (string \<times> part) list \<Rightarrow> string \<Rightarrow> drawing \<Rightarrow> string option list \<Rightarrow> t_para \<Rightarrow> world
      \<Rightarrow> error option \<times> t_para \<times> world" where
  "copy_blips_test2 env rel temp_img_dir d [] target_para w = (None, target_para, w)"
| "copy_blips_test2 env rel temp_img_dir d (b # bs) target_para w =
     (case copy_blip_test2 env rel temp_img_dir d b target_para w of
        (Some e, target_para', w') \<Rightarrow> (Some e, target_para', w')
      | (None, target_para', w') \<Rightarrow> copy_blips_test2 env rel temp_img_dir d bs target_para' w')"

fun copy_drawings_test2 ::
    "env \<Rightarrow> (string \<times> part) list \<Rightarrow> string \<Rightarrow> drawing list \<Rightarrow> t_para \<Rightarrow> world
      \<Rightarrow> error option \<times> t_para \<times> world" where
  "copy_drawings_test2 env rel temp_img_dir [] target_para w = (None, target_para, w)"
| "copy_drawings_test2 env rel temp_img_dir (d # ds) target_para w =
     (case copy_blips_test2 env rel temp_img_dir d (blips d) target_para w of
        (Some e, target_para', w') \<Rightarrow> (Some e, target_para', w')
      | (None, target_para', w') \<Rightarrow> copy_drawings_test2 env rel temp_img_dir ds target_para' w')"

fun copy_runs_test2 ::
    "env \<Rightarrow> (string \<times> part) list \<Rightarrow> string \<Rightarrow> run list \<Rightarrow> t_para \<Rightarrow> world
      \<Rightarrow> error option \<times> t_para \<times> world" where
  "copy_runs_test2 env rel temp_img_dir [] target_para w = (None, target_para, w)"
| "copy_runs_test2 env rel temp_img_dir (r # rs) target_para w =
     (case copy_drawings_test2 env rel temp_img_dir (drawings r)
             (add_run target_para (copy_run r)) w of
        (Some e, target_para', w') \<Rightarrow> (Some e, target_para', w')
      | (None, target_para', w') \<Rightarrow> copy_runs_test2 env rel temp_img_dir rs target_para' w')"

definition copy_paragraph_test2 ::
    "env \<Rightarrow> (string \<times> part) list \<Rightarrow> para \<Rightarrow> container \<Rightarrow> string \<Rightarrow> world
      \<Rightarrow> error option \<times> para \<times> container \<times> world" where
  "copy_paragraph_test2 env rel source_para target_container temp_img_dir w =
     (if strip (para_text source_para) = [] \<and> runs source_para = []
      then (None, source_para, add_paragraph target_container empty_para, w)
      else
        (let target_para = empty_para\<lparr>t_style := Some (style source_para),
                                       t_alignment := alignment source_para\<rparr> in
         case copy_numbering source_para target_para of
           (source_para', target_para) \<Rightarrow>
             (case copy_runs_test2 env rel temp_img_dir (runs source_para) target_para w of
                (err, target_para, w') \<Rightarrow>
                  (err, source_para', add_paragraph target_container target_para, w'))))"

subsection \<open>Copying a table\<close>

text \<open>\<^verbatim>\<open>copy_table\<close> of \<^verbatim>\<open>test3.py\<close>. Into a cell it writes a marker paragraph and one
  paragraph for each row (\<open>copy_nested_table\<close>, the \<^verbatim>\<open>_Cell\<close> branch). Into a document
  it adds a table of no rows and as many columns as the source, sets style, autofit and
  column widths, and fills a new row for each source row: \<^verbatim>\<open>add_row\<close> gives every cell
  one empty paragraph, \<^verbatim>\<open>clear_content\<close> empties the cell that is filled, and
  \<^verbatim>\<open>target_row.cells[i]\<close> raises beyond the last column. The call
  \<^verbatim>\<open>copy_table(block, target_cell, temp_img_dir)\<close> made for a table inside a cell has a
  \<^verbatim>\<open>_Cell\<close> as its target, so it runs the \<^verbatim>\<open>_Cell\<close> branch and is written as that branch in
  \<open>copy_cell_blocks\<close>. The changes that copying makes to the source paragraphs inside
  the table are not kept: nothing reads them afterwards.\<close>

definition set_widths :: "int option list \<Rightarrow> int option list \<Rightarrow> int option list" where
  "set_widths source_cols target_cols =
     foldl (\<lambda>ws (i, cw). if i < length ws then ws[i := cw] else ws) target_cols
       (zip [0..<length source_cols] source_cols)"

definition nested_row_text :: "block list list \<Rightarrow> string" where
  "nested_row_text nested_row = join [CHR 0x09] (map (\<lambda>cell. strip (cell_text cell)) nested_row)"

definition copy_nested_table :: "tbl \<Rightarrow> container \<Rightarrow> container" where
  "copy_nested_table source_table target_container =
     (let placeholder = new_para ''[Nested Table Content Below]'';
          placeholder = (if ''Caption'' \<in> set (styles target_container)
                         then placeholder\<lparr>t_style := Some ''Caption''\<rparr> else placeholder)
      in foldl (\<lambda>c nested_row. add_paragraph c (new_para (nested_row_text nested_row)))
           (add_paragraph target_container placeholder) (rows source_table))"

text \<open>The marker paragraph that \<open>copy_nested_table\<close> writes into a cell of a document
  with the style names \<open>sty\<close>, and \<^verbatim>\<open>Paragraph.text\<close> of a target paragraph.\<close>

definition nested_marker :: "string list \<Rightarrow> t_para" where
  "nested_marker sty = (new_para ''[Nested Table Content Below]'')
     \<lparr>t_style := (if ''Caption'' \<in> set sty then Some ''Caption'' else None)\<rparr>"

definition t_para_text :: "t_para \<Rightarrow> string" where
  "t_para_text p = concat (map t_text (t_runs p))"

text \<open>The loop over \<^verbatim>\<open>iter_block_items(source_cell)\<close>; the target is a cell.\<close>

fun copy_cell_blocks ::
    "env \<Rightarrow> (string \<times> part) list \<Rightarrow> block list \<Rightarrow> container \<Rightarrow> string \<Rightarrow> world
      \<Rightarrow> error option \<times> container \<times> world" where
  "copy_cell_blocks env rel [] target_cell temp_img_dir w = (None, target_cell, w)"
| "copy_cell_blocks env rel (Paragraph p # bs) target_cell temp_img_dir w =
     (case copy_paragraph env rel p target_cell temp_img_dir w of
        (err, p', target_cell', w') \<Rightarrow>
          if err \<noteq> None then (err, target_cell', w')
          else copy_cell_blocks env rel bs target_cell' temp_img_dir w')"
| "copy_cell_blocks env rel (Table t # bs) target_cell temp_img_dir w =
     copy_cell_blocks env rel bs (copy_nested_table t target_cell) temp_img_dir w"

text \<open>The loop over \<^verbatim>\<open>enumerate(source_row.cells)\<close>, from index \<open>i\<close> on; \<open>sty\<close> are the
  style names of the target document.\<close>

fun copy_cells ::
    "env \<Rightarrow> (string \<times> part) list \<Rightarrow> string \<Rightarrow> string list \<Rightarrow> block list list \<Rightarrow> nat
      \<Rightarrow> t_block list list \<Rightarrow> world \<Rightarrow> error option \<times> t_block list list \<times> world" where
  "copy_cells env rel temp_img_dir sty [] i target_row w = (None, target_row, w)"
| "copy_cells env rel temp_img_dir sty (source_cell # rest) i target_row w =
     (if i \<ge> length target_row then (Some IndexError, target_row, w)
      else
        (case copy_cell_blocks env rel source_cell \<lparr>kind = Cell, styles = sty, content = []\<rparr>
                temp_img_dir w of
           (err, target_cell, w') \<Rightarrow>
             if err \<noteq> None then (err, target_row[i := content target_cell], w')
             else copy_cells env rel temp_img_dir sty rest (i + 1)
                    (target_row[i := content target_cell]) w'))"

text \<open>The loop over \<^verbatim>\<open>source_table.rows\<close>; \<open>ncols\<close> is the number of columns of the
  target table and \<open>target_rows\<close> are the rows it has so far.\<close>

fun copy_rows ::
    "env \<Rightarrow> (string \<times> part) list \<Rightarrow> string \<Rightarrow> string list \<Rightarrow> nat \<Rightarrow> block list list list
      \<Rightarrow> t_block list list list \<Rightarrow> world \<Rightarrow> error option \<times> t_block list list list \<times> world" where
  "copy_rows env rel temp_img_dir sty ncols [] target_rows w = (None, target_rows, w)"
| "copy_rows env rel temp_img_dir sty ncols (source_row # rest) target_rows w =
     (let target_row = replicate ncols [TParagraph empty_para] in
      case copy_cells env rel temp_img_dir sty source_row 0 target_row w of
        (err, target_row', w') \<Rightarrow>
          if err \<noteq> None then (err, target_rows @ [target_row'], w')
          else copy_rows env rel temp_img_dir sty ncols rest (target_rows @ [target_row']) w')"

definition copy_table ::
    "env \<Rightarrow> (string \<times> part) list \<Rightarrow> tbl \<Rightarrow> container \<Rightarrow> string \<Rightarrow> world
      \<Rightarrow> error option \<times> container \<times> world" where
  "copy_table env rel source_table target_container temp_img_dir w =
     (case kind target_container of
        Cell \<Rightarrow> (None, copy_nested_table source_table target_container, w)
      | Document \<Rightarrow>
          (let ncols = length (columns source_table);
               widths = set_widths (columns source_table) (replicate ncols None)
           in case copy_rows env rel temp_img_dir (styles target_container) ncols
                     (rows source_table) [] w of
                (err, target_rows, w') \<Rightarrow>
                  (err,
                   target_container\<lparr>content := content target_container @
                     [TTable (TTbl (Some (tstyle source_table)) (autofit source_table) widths
                        target_rows)]\<rparr>,
                   w')))"

subsection \<open>The driver\<close>

text \<open>The loop \<^verbatim>\<open>for block in section_blocks\<close>; the target is the new document. The
  source paragraph as \<^verbatim>\<open>copy_paragraph\<close> leaves it is not kept here either: each block is
  copied once, and the script drops the source document when it returns.\<close>

fun copy_section_blocks ::
    "env \<Rightarrow> (string \<times> part) list \<Rightarrow> block list \<Rightarrow> container \<Rightarrow> string \<Rightarrow> world
      \<Rightarrow> error option \<times> container \<times> world" where
  "copy_section_blocks env rel [] current_doc temp_img_dir w = (None, current_doc, w)"
| "copy_section_blocks env rel (Paragraph p # bs) current_doc temp_img_dir w =
     (case copy_paragraph env rel p current_doc temp_img_dir w of
        (err, p', current_doc', w') \<Rightarrow>
          if err \<noteq> None then (err, current_doc', w')
          else copy_section_blocks env rel bs current_doc' temp_img_dir w')"
| "copy_section_blocks env rel (Table t # bs) current_doc temp_img_dir w =
     (case copy_table env rel t current_doc temp_img_dir w of
        (err, current_doc', w') \<Rightarrow>
          if err \<noteq> None then (err, current_doc', w')
          else copy_section_blocks env rel bs current_doc' temp_img_dir w')"

text \<open>The rest of one round of the loop that makes the sections: a new document, the
  page geometry of the first section of the source if it has one, and the blocks.\<close>

definition build_section ::
    "env \<Rightarrow> document \<Rightarrow> string \<Rightarrow> block list \<Rightarrow> world \<Rightarrow> error option \<times> t_document \<times> world" where
  "build_section env doc temp_img_dir section_blocks w =
     (let geometry = (case sections doc of [] \<Rightarrow> None | ref_section # _ \<Rightarrow> Some ref_section);
          current_doc = \<lparr>kind = Document, styles = template_styles env, content = []\<rparr>
      in case copy_section_blocks env (related_parts doc) section_blocks current_doc
                temp_img_dir w of
           (err, current_doc', w') \<Rightarrow>
             (err, \<lparr>t_geometry = geometry, t_body = content current_doc'\<rparr>, w'))"

text \<open>The loop that makes the sections. The script finds the blocks and the title of a
  section and builds its document in the same round; finding them changes nothing and
  (see \<open>segment_total\<close>) never raises, so the model finds all of them first, with
  \<open>segment\<close>, and builds the documents here. \<open>built\<close> is the list \<^verbatim>\<open>sections\<close> so far.\<close>

fun build_sections ::
    "env \<Rightarrow> document \<Rightarrow> string \<Rightarrow> (string \<times> block list) list \<Rightarrow> (string \<times> t_document) list
      \<Rightarrow> world \<Rightarrow> error option \<times> (string \<times> t_document) list \<times> world" where
  "build_sections env doc temp_img_dir [] built w = (None, built, w)"
| "build_sections env doc temp_img_dir ((title, section_blocks) # rest) built w =
     (case build_section env doc temp_img_dir section_blocks w of
        (err, current_doc, w') \<Rightarrow>
          if err \<noteq> None then (err, built, w')
          else build_sections env doc temp_img_dir rest (built @ [(title, current_doc)]) w')"

text \<open>The file name of section \<open>i\<close> (counted from 0) and the loop that saves the
  sections; \<open>progress_callback\<close> says whether a callback was given, and each call of it
  is recorded in the world.\<close>

definition safe_title :: "string \<Rightarrow> string" where
  "safe_title title = take 50 (rstrip (filter (\<lambda>c. isalnum c \<or> c \<in> set '' _-'') title))"

definition out_name :: "nat \<Rightarrow> string \<Rightarrow> string" where
  "out_name i title = format_02d (i + 1) @ ''_'' @ safe_title title @ ''.docx''"

definition out_path :: "string \<Rightarrow> nat \<Rightarrow> string \<Rightarrow> string" where
  "out_path output_dir i title = path_join output_dir (out_name i title)"

fun save_sections ::
    "env \<Rightarrow> string \<Rightarrow> bool \<Rightarrow> nat \<Rightarrow> nat \<Rightarrow> (string \<times> t_document) list \<Rightarrow> world
      \<Rightarrow> error option \<times> world" where
  "save_sections env output_dir progress_callback n_total i [] w = (None, w)"
| "save_sections env output_dir progress_callback n_total i ((title, section_doc) # rest) w =
     (case write_file env w (out_path output_dir i title) (Docx section_doc) of
        (err, w') \<Rightarrow>
          if err \<noteq> None then (err, w')
          else save_sections env output_dir progress_callback n_total (i + 1) rest
                 (if progress_callback then w'\<lparr>progress := progress w' @ [(i + 1, n_total)]\<rparr>
                  else w'))"

text \<open>The paths that the loop writes to, in order, from section \<open>i\<close> on.\<close>

fun section_paths :: "string \<Rightarrow> nat \<Rightarrow> (string \<times> t_document) list \<Rightarrow> string list" where
  "section_paths output_dir i [] = []"
| "section_paths output_dir i ((title, section_doc) # rest) =
     out_path output_dir i title # section_paths output_dir (i + 1) rest"

text \<open>\<^verbatim>\<open>split_docx_by_heading_with_images\<close> of \<^verbatim>\<open>test3.py\<close>: what it returns or
  raises, and the world it leaves.\<close>

definition split_docx_by_heading_with_images ::
    "env \<Rightarrow> world \<Rightarrow> string \<Rightarrow> string \<Rightarrow> string \<Rightarrow> bool \<Rightarrow> (error + nat) \<times> world" where
  "split_docx_by_heading_with_images env w docx_path output_dir heading_style progress_callback =
     (case makedirs env w output_dir of
        (Some e, w1) \<Rightarrow> (Inl e, w1)
      | (None, w1) \<Rightarrow>
          (let temp_img_dir = path_join output_dir ''temp_images'' in
           case makedirs env w1 temp_img_dir of
             (Some e, w2) \<Rightarrow> (Inl e, w2)
           | (None, w2) \<Rightarrow>
               (case package_reader env docx_path of
                  None \<Rightarrow> (Inl PackageError, w2)
                | Some doc \<Rightarrow>
                    (let blocks = body doc in
                     if blocks = [] then (Inr 0, w2)
                     else
                       (case segment blocks heading_style of
                          Inl e \<Rightarrow> (Inl e, w2)
                        | Inr segs \<Rightarrow>
                            (case build_sections env doc temp_img_dir segs [] w2 of
                               (Some e, built, w3) \<Rightarrow> (Inl e, w3)
                             | (None, built, w3) \<Rightarrow>
                                 (let n_total = length built in
                                  case save_sections env output_dir progress_callback n_total 0
                                         built w3 of
                                    (Some e, w4) \<Rightarrow> (Inl e, w4)
                                  | (None, w4) \<Rightarrow>
                                      if path_exists w4 temp_img_dir then
                                        (case rmtree w4 temp_img_dir of
                                           (Some e, w5) \<Rightarrow> (Inl e, w5)
                                         | (None, w5) \<Rightarrow> (Inr n_total, w5))
                                      else (Inr n_total, w4))))))))"

subsection \<open>The three ways a drawing fails to be an image\<close>

text \<open>The relationship id that \<^verbatim>\<open>test3.py\<close> reads from a drawing is the \<^verbatim>\<open>r:embed\<close>
  attribute of its first \<^verbatim>\<open>a:blip\<close>, when there is one and it is not empty. A drawing
  cannot be reproduced as an image when it has no such id, when the id is not in the
  relationship table, or when the id leads to a part that is not an image. Each case
  has its note.\<close>

datatype failure = UnlinkedDrawing | BrokenLink | NonImageObject

definition drawing_rId :: "drawing \<Rightarrow> string option" where
  "drawing_rId d =
     (case blips d of
        [] \<Rightarrow> None
      | b # _ \<Rightarrow> (case b of None \<Rightarrow> None | Some rid \<Rightarrow> if rid = [] then None else Some rid))"

definition failure_of :: "(string \<times> part) list \<Rightarrow> drawing \<Rightarrow> failure option" where
  "failure_of rel d =
     (case drawing_rId d of
        None \<Rightarrow> Some UnlinkedDrawing
      | Some rid \<Rightarrow>
          (case map_of rel rid of
             None \<Rightarrow> Some BrokenLink
           | Some (OtherPart _) \<Rightarrow> Some NonImageObject
           | Some (ImagePart _ _) \<Rightarrow> None))"

fun note_of :: "failure \<Rightarrow> string" where
  "note_of UnlinkedDrawing = shape_note"
| "note_of BrokenLink = broken_link_note"
| "note_of NonImageObject = complex_note"

subsection \<open>Example documents\<close>

text \<open>A run with nothing but its text, a paragraph of one such run in a given style, and
  the five blocks of the scenario: headings \<open>Intro-less para\<close>, \<open>A\<close> and \<open>B\<close>, with a
  body paragraph after each of the last two.\<close>

definition text_run :: "string \<Rightarrow> run" where
  "text_run s = \<lparr>rtext = s, bold = None, italic = None, underline = None, font_name = None,
     font_size = None, font_color = None, drawings = []\<rparr>"

definition styled_para :: "string \<Rightarrow> string \<Rightarrow> para" where
  "styled_para sty s = \<lparr>style = sty, alignment = None, pPr = None, runs = [text_run s]\<rparr>"

definition scenario_blocks :: "block list" where
  "scenario_blocks =
     [Paragraph (styled_para ''Heading 1'' ''Intro-less para''),
      Paragraph (styled_para ''Heading 1'' ''A''),
      Paragraph (styled_para ''Normal'' ''x''),
      Paragraph (styled_para ''Heading 1'' ''B''),
      Paragraph (styled_para ''Normal'' ''y'')]"

text \<open>An environment in which every path can be written, a world that has the output
  directory \<open>out\<close> and its \<open>temp_images\<close>, an empty new document and an empty cell.\<close>

definition env0 :: env where
  "env0 = \<lparr>writable = (\<lambda>p. True), package_reader = (\<lambda>p. None),
     template_styles = [''Normal'', ''Caption'']\<rparr>"

definition world0 :: world where
  "world0 = \<lparr>dirs = [''out'', ''out/temp_images''], files = [], progress = []\<rparr>"

definition new_document :: container where
  "new_document = \<lparr>kind = Document, styles = [''Normal'', ''Caption''], content = []\<rparr>"

definition target_cell :: container where
  "target_cell = \<lparr>kind = Cell, styles = [''Normal'', ''Caption''], content = []\<rparr>"

text \<open>A drawing that refers to \<open>rId7\<close> and has no extent, one that has an extent of two
  inches, a paragraph of one run that holds a given drawing, and a relationship table
  in which \<open>rId7\<close> is a PNG image.\<close>

definition broken_drawing :: drawing where
  "broken_drawing = \<lparr>blips = [Some ''rId7''], extent_elem = None\<rparr>"


definition figure_run :: "drawing \<Rightarrow> run" where
  "figure_run d = (text_run ''fig'')\<lparr>drawings := [d]\<rparr>"

definition figure_para :: "drawing \<Rightarrow> para" where
  "figure_para d = \<lparr>style = ''Normal'', alignment = None, pPr = None, runs = [figure_run d]\<rparr>"


text \<open>A table of one row whose first cell holds the text \<open>a\<close> with a blank on either
  side.\<close>

definition padded_table :: tbl where
  "padded_table = Tbl ''Table Grid'' True [Some 100, Some 100]
     [[[Paragraph (styled_para ''Normal'' '' a '')], [Paragraph (styled_para ''Normal'' ''b'')]]]"

text \<open>A list item: a paragraph with the text \<open>x\<close> and a numbering reference.\<close>

definition numbered_para :: para where
  "numbered_para = \<lparr>style = ''List Number'', alignment = None,
     pPr = Some \<lparr>numPr = Some \<lparr>numId = 1, ilvl = 0\<rparr>\<rparr>, runs = [text_run ''x'']\<rparr>"

text \<open>A world with no directory and no file; a source without blocks and one whose only
  block is the heading \<open>A\<close>; the environment in which the package reader gives a
  document and a predicate says which paths can be written; and the document that the
  script makes from the heading \<open>A\<close>.\<close>

definition empty_world :: world where
  "empty_world = \<lparr>dirs = [], files = [], progress = []\<rparr>"

definition empty_doc :: document where
  "empty_doc = \<lparr>body = [], related_parts = [], sections = []\<rparr>"

definition heading_doc :: document where
  "heading_doc = \<lparr>body = [Paragraph (styled_para ''Heading 1'' ''A'')], related_parts = [],
     sections = []\<rparr>"

definition reader_env :: "document \<Rightarrow> (string \<Rightarrow> bool) \<Rightarrow> env" where
  "reader_env doc wr = \<lparr>writable = wr, package_reader = (\<lambda>p. Some doc),
     template_styles = [''Normal'', ''Caption'']\<rparr>"

definition heading_copy :: t_document where
  "heading_copy = \<lparr>t_geometry = None,
     t_body = [TParagraph \<lparr>t_style = Some ''Heading 1'', t_alignment = None, t_pPr = None,
                            t_runs = [new_run ''A'']\<rparr>]\<rparr>"

section \<open>Properties\<close>

subsection \<open>Segmentation\<close>

lemma slice_Cons: "start < stop \<Longrightarrow> stop \<le> length xs \<Longrightarrow>
   slice xs start stop = xs ! start # slice xs (Suc start) stop"
  unfolding slice_def
  by (metis Cons_nth_drop_Suc Suc_diff_Suc Suc_diff_le diff_Suc_Suc less_le_trans take_Suc_Cons less_imp_le)

lemma slice_append: "a \<le> b \<Longrightarrow> b \<le> c \<Longrightarrow> slice xs a b @ slice xs b c = slice xs a c"
proof -
  assume ab: "a \<le> b" and bc: "b \<le> c"
  have "take (c - a) (drop a xs) = take ((b - a) + (c - b)) (drop a xs)"
    using ab bc by simp
  also have "\<dots> = take (b - a) (drop a xs) @ take (c - b) (drop (b - a) (drop a xs))"
    by (simp only: take_add)
  also have "drop (b - a) (drop a xs) = drop b xs"
    using ab by simp
  finally show ?thesis by (simp add: slice_def)
qed

lemma collect_all_Some:
  "(\<And>i. i \<in> set js \<Longrightarrow> f i = Inr (Some (g i))) \<Longrightarrow> collect f js = Inr (map g js)"
  by (induction js) auto

lemma concat_slices:
  "sorted_wrt (<) idx \<Longrightarrow> idx \<noteq> [] \<Longrightarrow>
   concat (map (\<lambda>i. slice xs (idx ! i) (idx ! (i + 1))) [0..<length idx - 1])
     = slice xs (hd idx) (last idx)"
proof (induction idx rule: rev_induct)
  case Nil then show ?case by simp
next
  case (snoc x idx)
  show ?case
  proof (cases "idx = []")
    case True then show ?thesis by (simp add: slice_def)
  next
    case False
    then obtain k where k: "length idx = Suc k" by (cases idx) auto
    have sorted: "sorted_wrt (<) idx" and lt: "\<forall>y\<in>set idx. y < x"
      using snoc.prems(1) by (auto simp: sorted_wrt_append)
    have IH: "concat (map (\<lambda>i. slice xs (idx ! i) (idx ! (i + 1))) [0..<k]) = slice xs (hd idx) (last idx)"
      using snoc.IH[OF sorted False] k by simp
    have same: "map (\<lambda>i. slice xs ((idx @ [x]) ! i) ((idx @ [x]) ! (i + 1))) [0..<k]
                = map (\<lambda>i. slice xs (idx ! i) (idx ! (i + 1))) [0..<k]"
      using k by (auto simp: nth_append)
    have lastk: "(idx @ [x]) ! k = last idx" "(idx @ [x]) ! Suc k = x"
      using k False by (auto simp: nth_append last_conv_nth)
    have hd_le: "hd idx \<le> last idx"
    proof (cases "k = 0")
      case True
      then show ?thesis using k by (cases idx) auto
    next
      case False
      have "idx ! 0 < idx ! k" using sorted k False by (auto simp: sorted_wrt_iff_nth_less)
      then show ?thesis using k \<open>idx \<noteq> []\<close> by (simp add: hd_conv_nth last_conv_nth)
    qed
    have last_lt: "last idx \<le> x" using lt False by (auto simp: less_imp_le)
    have upt: "[0..<length (idx @ [x]) - 1] = [0..<k] @ [k]"
      using k by simp
    have "concat (map (\<lambda>i. slice xs ((idx @ [x]) ! i) ((idx @ [x]) ! (i + 1))) [0..<length (idx @ [x]) - 1])
         = concat (map (\<lambda>i. slice xs ((idx @ [x]) ! i) ((idx @ [x]) ! (i + 1))) [0..<k])
           @ slice xs ((idx @ [x]) ! k) ((idx @ [x]) ! Suc k)"
      unfolding upt by simp
    also have "\<dots> = slice xs (hd idx) (last idx) @ slice xs (last idx) x"
      unfolding same IH lastk ..
    also have "\<dots> = slice xs (hd idx) x" by (rule slice_append[OF hd_le last_lt])
    finally show ?thesis using False by simp
  qed
qed

lemma heading_indices_sorted:
  "sorted_wrt (<) (filter P [0..<n])"
  by (simp add: sorted_wrt_filter)

lemma section_indices_sorted: "sorted_wrt (<) (section_indices b bs hs)"
  unfolding section_indices_def Let_def
  by (auto simp: sorted_wrt_append sorted_wrt_filter intro: gr0I)

lemma section_indices_hd: "hd (section_indices b bs hs) = 0"
proof -
  have "[0..<length (b # bs)] = 0 # [Suc 0..<length (b # bs)]"
    by (simp add: upt_conv_Cons del: upt_Suc)
  then show ?thesis
    unfolding section_indices_def Let_def by simp
qed

lemma section_indices_last: "last (section_indices b bs hs) = Suc (length bs)"
  unfolding section_indices_def Let_def by simp


lemma section_at_Some:
  assumes "idx ! i < idx ! (i + 1)" "idx ! (i + 1) \<le> length blocks"
  shows "section_at blocks hs idx i =
           Inr (Some (section_title hs (blocks ! (idx ! i)) i, slice blocks (idx ! i) (idx ! (i + 1))))"
    and "section_at_test2 blocks hs idx i =
           Inr (Some (section_title hs (blocks ! (idx ! i)) i, slice blocks (idx ! i) (idx ! (i + 1))))"
  using assms slice_Cons[of "idx ! i" "idx ! (i + 1)" blocks]
  by (simp_all add: section_at_def section_at_test2_def Let_def)

lemma filter_nth_holds: "i < length (filter P xs) \<Longrightarrow> P (filter P xs ! i)"
  using nth_mem[of i "filter P xs"] by simp

lemma section_indices_heading:
  assumes "is_heading hs b" "i < length (section_indices b bs hs) - 1"
  shows "is_heading hs ((b # bs) ! (section_indices b bs hs ! i))"
proof -
  define H where "H = filter (\<lambda>i. is_heading hs ((b # bs) ! i)) [0..<length (b # bs)]"
  have idx: "section_indices b bs hs = H @ [length (b # bs)]"
    using assms(1) unfolding section_indices_def Let_def H_def by simp
  have i: "i < length H" using assms(2) unfolding idx by simp
  then have "is_heading hs ((b # bs) ! (H ! i))"
    unfolding H_def by (rule filter_nth_holds)
  then show ?thesis unfolding idx using i by (simp add: nth_append)
qed

lemma length_filter_index:
  "length (filter (\<lambda>i. P (xs ! i)) [0..<length xs]) = length (filter P xs)"
proof -
  have "filter P xs = filter P (map (\<lambda>i. xs ! i) [0..<length xs])"
    by (simp add: map_nth)
  also have "\<dots> = map (\<lambda>i. xs ! i) (filter (P \<circ> (\<lambda>i. xs ! i)) [0..<length xs])"
    by (simp only: filter_map)
  finally show ?thesis by (simp add: comp_def)
qed

lemma segment_shape:
  assumes "blocks \<noteq> []"
  shows "\<exists>secs. segment blocks hs = Inr secs \<and> segment_test2 blocks hs = Inr secs
           \<and> concat (map snd secs) = blocks
           \<and> sum_list (map (length \<circ> snd) secs) = length blocks
           \<and> (\<forall>s\<in>set secs. snd s \<noteq> [])
           \<and> (is_heading hs (hd blocks) \<longrightarrow> (\<forall>s\<in>set secs. is_heading hs (hd (snd s))))
           \<and> length secs = (if is_heading hs (hd blocks) then 0 else 1)
                               + length (filter (is_heading hs) blocks)"
proof -
  from assms obtain b bs where blocks: "blocks = b # bs" by (cases blocks) auto
  define idx where "idx = section_indices b bs hs"
  define g where "g i = (section_title hs (blocks ! (idx ! i)) i, slice blocks (idx ! i) (idx ! (i + 1)))" for i
  define secs where "secs = map g [0..<length idx - 1]"
  have sorted: "sorted_wrt (<) idx" unfolding idx_def by (rule section_indices_sorted)
  have ne: "idx \<noteq> []" unfolding idx_def section_indices_def Let_def by simp
  have hd0: "hd idx = 0" unfolding idx_def by (rule section_indices_hd)
  have lastn: "last idx = length blocks" unfolding idx_def blocks by (simp add: section_indices_last)
  have step: "idx ! i < idx ! (i + 1) \<and> idx ! (i + 1) \<le> length blocks" if "i < length idx - 1" for i
  proof -
    have lt: "idx ! i < idx ! (i + 1)"
      using sorted that by (simp add: sorted_wrt_iff_nth_less)
    have "idx ! (i + 1) \<le> idx ! (length idx - 1)"
    proof (cases "i + 1 = length idx - 1")
      case True then show ?thesis by simp
    next
      case False
      then have "idx ! (i + 1) < idx ! (length idx - 1)"
        using sorted that by (simp add: sorted_wrt_iff_nth_less)
      then show ?thesis by simp
    qed
    then show ?thesis using lt lastn ne by (simp add: last_conv_nth)
  qed
  have at: "section_at blocks hs idx i = Inr (Some (g i))"
       "section_at_test2 blocks hs idx i = Inr (Some (g i))" if "i \<in> set [0..<length idx - 1]" for i
    using that step[of i] section_at_Some[of idx i blocks hs] by (simp_all add: g_def)
  have "segment blocks hs = collect (section_at blocks hs idx) [0..<length idx - 1]"
    by (simp add: segment_def blocks idx_def Let_def)
  also have "\<dots> = Inr secs"
    unfolding secs_def by (rule collect_all_Some) (rule at(1))
  finally have seg: "segment blocks hs = Inr secs" .
  have "segment_test2 blocks hs = collect (section_at_test2 blocks hs idx) [0..<length idx - 1]"
    by (simp add: segment_test2_def blocks idx_def Let_def)
  also have "\<dots> = Inr secs"
    unfolding secs_def by (rule collect_all_Some) (rule at(2))
  finally have seg2: "segment_test2 blocks hs = Inr secs" .
  have "map snd secs = map (\<lambda>i. slice blocks (idx ! i) (idx ! (i + 1))) [0..<length idx - 1]"
    by (simp add: secs_def g_def)
  then have "concat (map snd secs) = slice blocks (hd idx) (last idx)"
    using concat_slices[OF sorted ne, of blocks] by simp
  then have cat: "concat (map snd secs) = blocks"
    by (simp add: hd0 lastn slice_def)
  have "sum_list (map (length \<circ> snd) secs) = length (concat (map snd secs))"
    by (simp add: length_concat comp_def)
  then have total: "sum_list (map (length \<circ> snd) secs) = length blocks"
    by (simp add: cat)
  have nonempty: "\<forall>s\<in>set secs. snd s \<noteq> []"
  proof
    fix s assume "s \<in> set secs"
    then obtain i where i: "i < length idx - 1" and s: "s = g i" by (auto simp: secs_def)
    show "snd s \<noteq> []"
      using step[OF i] slice_Cons[of "idx ! i" "idx ! (i + 1)" blocks] by (simp add: s g_def)
  qed
  have heads: "is_heading hs (hd blocks) \<longrightarrow> (\<forall>s\<in>set secs. is_heading hs (hd (snd s)))"
  proof (intro impI ballI)
    fix s assume h: "is_heading hs (hd blocks)" and "s \<in> set secs"
    then obtain i where i: "i < length idx - 1" and s: "s = g i" by (auto simp: secs_def)
    have "hd (snd s) = blocks ! (idx ! i)"
      using step[OF i] slice_Cons[of "idx ! i" "idx ! (i + 1)" blocks] by (simp add: s g_def)
    moreover have "is_heading hs (blocks ! (idx ! i))"
      using section_indices_heading[where hs=hs and b=b and bs=bs and i=i] h i by (simp add: blocks idx_def)
    ultimately show "is_heading hs (hd (snd s))" by simp
  qed
  have idx_eq: "idx = (if \<not> is_heading hs b then [0] else []) @
      filter (\<lambda>i. is_heading hs (blocks ! i)) [0..<length blocks] @ [length blocks]"
    unfolding idx_def section_indices_def Let_def blocks by (rule refl)
  have "length idx - 1 = (if is_heading hs b then 0 else 1)
            + length (filter (\<lambda>i. is_heading hs (blocks ! i)) [0..<length blocks])"
    unfolding idx_eq by simp
  moreover have "hd blocks = b" by (simp add: blocks)
  ultimately have count: "length secs = (if is_heading hs (hd blocks) then 0 else 1)
                               + length (filter (is_heading hs) blocks)"
    by (simp add: secs_def length_filter_index)
  from seg seg2 cat total nonempty heads count show ?thesis by blast
qed

lemma segment_total: "\<exists>secs. segment blocks hs = Inr secs"
proof (cases "blocks = []")
  case True
  then show ?thesis by (simp add: segment_def)
next
  case False
  then show ?thesis using segment_shape[of blocks hs] by blast
qed

lemma styled_para_sel [simp]:
  "style (styled_para sty s) = sty" "para_text (styled_para sty s) = s"
  by (simp_all add: styled_para_def para_text_def text_run_def)

lemma strip_scenario:
  "strip ''Intro-less para'' = ''Intro-less para''" "strip ''A'' = ''A''" "strip ''B'' = ''B''"
  by (simp_all add: strip_def lstrip_def rstrip_def isspace_def)

lemma scenario_indices:
  "section_indices (hd scenario_blocks) (tl scenario_blocks) ''Heading 1'' = [0, 1, 3, 5]"
  by (simp add: scenario_blocks_def section_indices_def upt_conv_Cons)

text \<open>
  \<^bold>\<open>Claim C1.\<close> For every list of top-level blocks that is not empty, the segmenter
  returns sections (it does not raise) whose blocks, put together in order, are the
  source's blocks: the block counts of the sections add up to the number of top-level
  blocks. No section has zero blocks. When the first block is a heading, every section
  starts with a heading and there are as many sections as headings, so there is no
  leading section for blocks before the first heading; otherwise there is one section
  more than there are headings. \<^verbatim>\<open>test2.py\<close>, which has no \<^verbatim>\<open>continue\<close>, returns the
  same sections.
\<close>

theorem segment_partitions_blocks:
  assumes "blocks \<noteq> []"
  shows "\<exists>secs. segment blocks hs = Inr secs \<and> segment_test2 blocks hs = Inr secs
           \<and> concat (map snd secs) = blocks
           \<and> sum_list (map (length \<circ> snd) secs) = length blocks
           \<and> (\<forall>s\<in>set secs. snd s \<noteq> [])
           \<and> (is_heading hs (hd blocks) \<longrightarrow> (\<forall>s\<in>set secs. is_heading hs (hd (snd s))))
           \<and> length secs = (if is_heading hs (hd blocks) then 0 else 1)
                               + length (filter (is_heading hs) blocks)"
  using assms by (rule segment_shape)

theorem segment_partitions_blocks_witness:
  "scenario_blocks \<noteq> [] \<and> is_heading ''Heading 1'' (hd scenario_blocks) \<and>
   (\<exists>secs. segment scenario_blocks ''Heading 1'' = Inr secs
      \<and> segment_test2 scenario_blocks ''Heading 1'' = Inr secs
      \<and> concat (map snd secs) = scenario_blocks
      \<and> sum_list (map (length \<circ> snd) secs) = length scenario_blocks
      \<and> (\<forall>s\<in>set secs. snd s \<noteq> [])
      \<and> (\<forall>s\<in>set secs. is_heading ''Heading 1'' (hd (snd s)))
      \<and> length secs = 3)"
proof -
  have ne: "scenario_blocks \<noteq> []" by (simp add: scenario_blocks_def)
  have h: "is_heading ''Heading 1'' (hd scenario_blocks)" by (simp add: scenario_blocks_def)
  have n: "length (filter (is_heading ''Heading 1'') scenario_blocks) = 3"
    by (simp add: scenario_blocks_def)
  show ?thesis
    using ne h n segment_partitions_blocks[OF ne, of "''Heading 1''"] by auto
qed

text \<open>
  \<^bold>\<open>Claim C2.\<close> For the five blocks Heading 1 \<open>Intro-less para\<close>, Heading 1 \<open>A\<close>,
  paragraph \<open>x\<close>, Heading 1 \<open>B\<close>, paragraph \<open>y\<close> and the heading style \<open>Heading 1\<close>, the
  section indices are 0, 1, 3, 5 and the segmenter returns three sections, titled
  \<open>Intro-less para\<close>, \<open>A\<close> and \<open>B\<close> in this order, of 1, 2 and 2 blocks; \<^verbatim>\<open>test2.py\<close>
  returns the same.
\<close>

theorem scenario_three_sections:
  "section_indices (hd scenario_blocks) (tl scenario_blocks) ''Heading 1'' = [0, 1, 3, 5]
   \<and> segment scenario_blocks ''Heading 1'' =
       Inr [(''Intro-less para'', [Paragraph (styled_para ''Heading 1'' ''Intro-less para'')]),
            (''A'', [Paragraph (styled_para ''Heading 1'' ''A''),
                     Paragraph (styled_para ''Normal'' ''x'')]),
            (''B'', [Paragraph (styled_para ''Heading 1'' ''B''),
                     Paragraph (styled_para ''Normal'' ''y'')])]
   \<and> map (\<lambda>s. length (snd s))
         [(''Intro-less para'', [Paragraph (styled_para ''Heading 1'' ''Intro-less para'')]),
          (''A'', [Paragraph (styled_para ''Heading 1'' ''A''),
                   Paragraph (styled_para ''Normal'' ''x'')]),
          (''B'', [Paragraph (styled_para ''Heading 1'' ''B''),
                   Paragraph (styled_para ''Normal'' ''y'')])] = [1, 2, 2]
   \<and> segment_test2 scenario_blocks ''Heading 1'' = segment scenario_blocks ''Heading 1''"
proof -
  have idx: "section_indices (Paragraph (styled_para ''Heading 1'' ''Intro-less para''))
     [Paragraph (styled_para ''Heading 1'' ''A''), Paragraph (styled_para ''Normal'' ''x''),
      Paragraph (styled_para ''Heading 1'' ''B''), Paragraph (styled_para ''Normal'' ''y'')]
     ''Heading 1'' = [0, 1, 3, 5]"
    using scenario_indices by (simp add: scenario_blocks_def)
  have upt: "[0..<3] = [0, 1, 2]" by (simp add: upt_conv_Cons)
  have s3: "segment scenario_blocks ''Heading 1'' =
       Inr [(''Intro-less para'', [Paragraph (styled_para ''Heading 1'' ''Intro-less para'')]),
            (''A'', [Paragraph (styled_para ''Heading 1'' ''A''),
                     Paragraph (styled_para ''Normal'' ''x'')]),
            (''B'', [Paragraph (styled_para ''Heading 1'' ''B''),
                     Paragraph (styled_para ''Normal'' ''y'')])]"
    by (simp add: segment_def scenario_blocks_def idx upt section_at_def slice_def
        section_title_def strip_scenario)
  have s2: "segment_test2 scenario_blocks ''Heading 1'' =
       Inr [(''Intro-less para'', [Paragraph (styled_para ''Heading 1'' ''Intro-less para'')]),
            (''A'', [Paragraph (styled_para ''Heading 1'' ''A''),
                     Paragraph (styled_para ''Normal'' ''x'')]),
            (''B'', [Paragraph (styled_para ''Heading 1'' ''B''),
                     Paragraph (styled_para ''Normal'' ''y'')])]"
    by (simp add: segment_test2_def scenario_blocks_def idx upt section_at_test2_def slice_def
        section_title_def strip_scenario)
  show ?thesis using scenario_indices s3 s2 by simp
qed

subsection \<open>Drawings that are not images\<close>

lemma copy_drawing_failure:
  "failure_of rel d = Some f \<Longrightarrow>
   copy_drawing env rel temp d tp w = (None, add_run tp (placeholder_run (note_of f)), w)"
  by (auto simp: failure_of_def drawing_rId_def copy_drawing_def Let_def
           split: list.splits option.splits part.splits if_splits)

lemma add_run_runs [simp]: "t_runs (add_run tp r) = t_runs tp @ [r]"
  by (simp add: add_run_def)

lemma add_run_as_update: "add_run tp r = tp\<lparr>t_runs := t_runs tp @ [r]\<rparr>"
  by (simp add: add_run_def)

lemma copy_drawings_failures:
  "\<forall>d\<in>set ds. failure_of rel d \<noteq> None \<Longrightarrow>
   copy_drawings env rel temp ds tp w =
     (None, tp\<lparr>t_runs := t_runs tp @
               map (\<lambda>d. placeholder_run (note_of (the (failure_of rel d)))) ds\<rparr>, w)"
proof (induction ds arbitrary: tp)
  case Nil
  then show ?case by simp
next
  case (Cons d ds)
  then obtain f where f: "failure_of rel d = Some f" by auto
  show ?case
    using Cons.prems Cons.IH[of "add_run tp (placeholder_run (note_of f))"]
    by (simp add: copy_drawing_failure[OF f] f add_run_as_update)
qed

lemma copy_runs_failures:
  "\<forall>r\<in>set rs. \<forall>d\<in>set (drawings r). failure_of rel d \<noteq> None \<Longrightarrow>
   copy_runs env rel temp rs tp w =
     (None, tp\<lparr>t_runs := t_runs tp @
               concat (map (\<lambda>r. copy_run r #
                  map (\<lambda>d. placeholder_run (note_of (the (failure_of rel d)))) (drawings r)) rs)\<rparr>, w)"
proof (induction rs arbitrary: tp)
  case Nil
  then show ?case by simp
next
  case (Cons r rs)
  have d: "\<forall>d\<in>set (drawings r). failure_of rel d \<noteq> None" using Cons.prems by simp
  show ?case
    using Cons.prems Cons.IH
    by (simp add: copy_drawings_failures[OF d] add_run_as_update)
qed

lemma notes_distinct:
  "shape_note \<noteq> broken_link_note" "shape_note \<noteq> complex_note" "broken_link_note \<noteq> complex_note"
  by (simp_all add: shape_note_def broken_link_note_def complex_note_def)

lemma inj_note_of: "inj note_of"
proof (rule injI)
  fix x y assume "note_of x = note_of y"
  then show "x = y" using notes_distinct by (cases x; cases y) auto
qed

lemma placeholder_run_sel [simp]:
  "t_italic (placeholder_run n) = Some True" "t_picture (placeholder_run n) = None"
  "t_text (placeholder_run n) = n"
  by (simp_all add: placeholder_run_def new_run_def)

lemma copy_numbering_runs [simp]: "t_runs (snd (copy_numbering p tp)) = t_runs tp"
  by (simp add: copy_numbering_def Let_def split: option.splits)

lemma copy_paragraph_failures:
  assumes all: "\<forall>r\<in>set (runs p). \<forall>d\<in>set (drawings r). failure_of rel d \<noteq> None"
      and ex: "list_ex (\<lambda>r. drawings r \<noteq> []) (runs p)"
  shows "copy_paragraph env rel p c temp w =
     (None, fst (copy_numbering p (empty_para\<lparr>t_style := Some (style p), t_alignment := alignment p\<rparr>)),
      add_paragraph c
        ((snd (copy_numbering p (empty_para\<lparr>t_style := Some (style p), t_alignment := alignment p\<rparr>)))
           \<lparr>t_runs := concat (map (\<lambda>r. copy_run r #
                 map (\<lambda>d. placeholder_run (note_of (the (failure_of rel d)))) (drawings r)) (runs p))\<rparr>),
      w)"
proof -
  define tp where "tp = empty_para\<lparr>t_style := Some (style p), t_alignment := alignment p\<rparr>"
  have r0: "t_runs tp = []"
    by (simp add: tp_def empty_para_def)
  show ?thesis
    using ex unfolding tp_def[symmetric]
    by (simp add: copy_paragraph_def Let_def tp_def[symmetric] split_beta
        copy_runs_failures[OF all] r0)
qed

text \<open>
  \<^bold>\<open>Claim C4.\<close> A drawing that cannot be reproduced as an image, because it has no
  relationship id, because its id is not in the relationship table or because its id
  leads to a part that is not an image, makes \<^verbatim>\<open>copy_paragraph\<close> of \<^verbatim>\<open>test3.py\<close> add one
  run: it is italic, holds no picture, and its text is the note of that failure. The
  three notes differ from each other. Nothing is raised and no file is written. In a
  paragraph whose drawings all fail in one of these ways, the target paragraph has,
  for each source run, the copy of the run followed by one note for each of its
  drawings, in order; so a run whose one drawing refers to an id that the table lacks
  gives the copy of the run, one run with the broken-link note, and no picture.
\<close>

theorem irreproducible_drawing_leaves_note:
  "(failure_of rel d = Some f \<longrightarrow>
      copy_drawing env rel temp d tp w = (None, add_run tp (placeholder_run (note_of f)), w))
   \<and> ((\<forall>r\<in>set (runs p). \<forall>d\<in>set (drawings r). failure_of rel d \<noteq> None)
        \<and> list_ex (\<lambda>r. drawings r \<noteq> []) (runs p) \<longrightarrow>
      copy_paragraph env rel p c temp w =
       (None, fst (copy_numbering p (empty_para\<lparr>t_style := Some (style p), t_alignment := alignment p\<rparr>)),
        add_paragraph c
         ((snd (copy_numbering p (empty_para\<lparr>t_style := Some (style p), t_alignment := alignment p\<rparr>)))
           \<lparr>t_runs := concat (map (\<lambda>r. copy_run r #
                 map (\<lambda>d. placeholder_run (note_of (the (failure_of rel d)))) (drawings r)) (runs p))\<rparr>),
        w))
   \<and> t_italic (placeholder_run (note_of f)) = Some True
   \<and> t_picture (placeholder_run (note_of f)) = None
   \<and> t_text (placeholder_run (note_of f)) = note_of f
   \<and> inj note_of"
  using copy_drawing_failure[of rel d f env temp tp w] copy_paragraph_failures[of p rel env c temp w]
    inj_note_of by simp

theorem irreproducible_drawing_leaves_note_witness:
  "failure_of [] broken_drawing = Some BrokenLink
   \<and> copy_drawing env0 [] ''out/temp_images'' broken_drawing empty_para world0
       = (None, add_run empty_para (placeholder_run broken_link_note), world0)
   \<and> copy_paragraph env0 [] (figure_para broken_drawing) new_document ''out/temp_images'' world0
       = (None, figure_para broken_drawing,
          add_paragraph new_document
            \<lparr>t_style = Some ''Normal'', t_alignment = None, t_pPr = None,
               t_runs = [copy_run (figure_run broken_drawing), placeholder_run broken_link_note]\<rparr>,
          world0)"
proof -
  note inst = irreproducible_drawing_leaves_note[of "[]" broken_drawing BrokenLink env0
        "''out/temp_images''" empty_para world0 "figure_para broken_drawing" new_document]
  have f: "failure_of [] broken_drawing = Some BrokenLink"
    by (simp add: failure_of_def drawing_rId_def broken_drawing_def)
  have all: "\<forall>r\<in>set (runs (figure_para broken_drawing)). \<forall>d\<in>set (drawings r). failure_of [] d \<noteq> None"
    by (simp add: figure_para_def figure_run_def f)
  have ex: "list_ex (\<lambda>r. drawings r \<noteq> []) (runs (figure_para broken_drawing))"
    by (simp add: figure_para_def figure_run_def)
  have cn: "copy_numbering (figure_para broken_drawing) tp = (figure_para broken_drawing, tp)" for tp
    by (simp add: copy_numbering_def figure_para_def)
  have rs: "runs (figure_para broken_drawing) = [figure_run broken_drawing]"
    "style (figure_para broken_drawing) = ''Normal''" "alignment (figure_para broken_drawing) = None"
    "drawings (figure_run broken_drawing) = [broken_drawing]"
    by (simp_all add: figure_para_def figure_run_def)
  have A: "copy_drawing env0 [] ''out/temp_images'' broken_drawing empty_para world0
       = (None, add_run empty_para (placeholder_run broken_link_note), world0)"
    using inst f by simp
  have B: "copy_paragraph env0 [] (figure_para broken_drawing) new_document ''out/temp_images'' world0
       = (None, figure_para broken_drawing,
          add_paragraph new_document
            \<lparr>t_style = Some ''Normal'', t_alignment = None, t_pPr = None,
               t_runs = [copy_run (figure_run broken_drawing), placeholder_run broken_link_note]\<rparr>,
          world0)"
    using inst all ex by (simp add: cn rs f empty_para_def)
  show ?thesis using f A B by simp
qed

subsection \<open>The width of a picture\<close>






subsection \<open>One paragraph for each paragraph\<close>

lemma copy_drawing_keeps_runs:
  "copy_drawing env rel temp d tp w = (err, tp', w') \<Longrightarrow> prefix (t_runs tp) (t_runs tp')"
  by (auto simp: copy_drawing_def Let_def split: list.splits option.splits part.splits if_splits prod.splits)

lemma copy_drawings_keeps_runs:
  "copy_drawings env rel temp ds tp w = (err, tp', w') \<Longrightarrow> prefix (t_runs tp) (t_runs tp')"
proof (induction ds arbitrary: tp w)
  case Nil
  then show ?case by simp
next
  case (Cons d ds)
  obtain e1 tp1 w1 where d: "copy_drawing env rel temp d tp w = (e1, tp1, w1)"
    by (cases "copy_drawing env rel temp d tp w") auto
  have p1: "prefix (t_runs tp) (t_runs tp1)" using d by (rule copy_drawing_keeps_runs)
  show ?case
  proof (cases e1)
    case None
    then have "copy_drawings env rel temp ds tp1 w1 = (err, tp', w')"
      using Cons.prems d by simp
    then have "prefix (t_runs tp1) (t_runs tp')" by (rule Cons.IH)
    with p1 show ?thesis by (rule prefix_order.trans)
  next
    case (Some e)
    then show ?thesis using Cons.prems d p1 by simp
  qed
qed

lemma copy_runs_keeps_runs:
  "copy_runs env rel temp rs tp w = (err, tp', w') \<Longrightarrow> prefix (t_runs tp) (t_runs tp')"
proof (induction rs arbitrary: tp w)
  case Nil
  then show ?case by simp
next
  case (Cons r rs)
  obtain e1 tp1 w1 where d: "copy_drawings env rel temp (drawings r) (add_run tp (copy_run r)) w = (e1, tp1, w1)"
    by (cases "copy_drawings env rel temp (drawings r) (add_run tp (copy_run r)) w") auto
  have "prefix (t_runs (add_run tp (copy_run r))) (t_runs tp1)"
    using d by (rule copy_drawings_keeps_runs)
  then have p1: "prefix (t_runs tp) (t_runs tp1)"
    by (simp add: append_prefixD)
  show ?case
  proof (cases e1)
    case None
    then have "copy_runs env rel temp rs tp1 w1 = (err, tp', w')"
      using Cons.prems d by simp
    then have "prefix (t_runs tp1) (t_runs tp')" by (rule Cons.IH)
    with p1 show ?thesis by (rule prefix_order.trans)
  next
    case (Some e)
    then show ?thesis using Cons.prems d p1 by simp
  qed
qed

lemma copy_runs_nonempty:
  assumes "rs \<noteq> []" "copy_runs env rel temp rs tp w = (err, tp', w')"
  shows "t_runs tp' \<noteq> []"
proof -
  obtain r rest where rs: "rs = r # rest" using assms(1) by (cases rs) auto
  obtain e1 tp1 w1 where d: "copy_drawings env rel temp (drawings r) (add_run tp (copy_run r)) w = (e1, tp1, w1)"
    by (cases "copy_drawings env rel temp (drawings r) (add_run tp (copy_run r)) w") auto
  have p1: "prefix (t_runs tp @ [copy_run r]) (t_runs tp1)"
    using copy_drawings_keeps_runs[OF d] by simp
  have "prefix (t_runs tp1) (t_runs tp')"
  proof (cases e1)
    case None
    then have "copy_runs env rel temp rest tp1 w1 = (err, tp', w')"
      using assms(2) d rs by simp
    then show ?thesis by (rule copy_runs_keeps_runs)
  next
    case (Some e)
    then show ?thesis using assms(2) d rs by simp
  qed
  with p1 have "prefix (t_runs tp @ [copy_run r]) (t_runs tp')" by (rule prefix_order.trans)
  then show ?thesis by (auto simp: prefix_def)
qed

lemma no_text_no_runs: "strip (para_text p) \<noteq> [] \<Longrightarrow> runs p \<noteq> []"
  by (auto simp: para_text_def strip_def lstrip_def rstrip_def)

text \<open>
  \<^bold>\<open>Claim C9.\<close> For every source paragraph, \<^verbatim>\<open>copy_paragraph\<close> of \<^verbatim>\<open>test3.py\<close> appends
  exactly one paragraph to the target container, also when it raises while it copies
  an image. That paragraph is the empty one, with no style, alignment, numbering or
  run, if and only if the source paragraph has no text but white space and no run
  with a drawing.
\<close>

theorem copy_paragraph_appends_one:
  "\<exists>err src' tp w'.
     copy_paragraph env rel p c temp w = (err, src', c\<lparr>content := content c @ [TParagraph tp]\<rparr>, w')
     \<and> (tp = empty_para \<longleftrightarrow>
          strip (para_text p) = [] \<and> \<not> list_ex (\<lambda>r. drawings r \<noteq> []) (runs p))"
proof (cases "strip (para_text p) = [] \<and> \<not> list_ex (\<lambda>r. drawings r \<noteq> []) (runs p)")
  case True
  then have "copy_paragraph env rel p c temp w = (None, p, c\<lparr>content := content c @ [TParagraph empty_para]\<rparr>, w)"
    by (cases "kind c") (simp_all add: copy_paragraph_def add_paragraph_def)
  with True show ?thesis by blast
next
  case False
  define tp0 where "tp0 = empty_para\<lparr>t_style := Some (style p), t_alignment := alignment p\<rparr>"
  obtain src' tp1 where cn: "copy_numbering p tp0 = (src', tp1)"
    by (cases "copy_numbering p tp0") auto
  obtain err tp' w' where cr: "copy_runs env rel temp (runs p) tp1 w = (err, tp', w')"
    by (cases "copy_runs env rel temp (runs p) tp1 w") auto
  have ne: "runs p \<noteq> []"
    using False no_text_no_runs[of p] by (auto simp: list_ex_iff)
  have "t_runs tp' \<noteq> []" using ne cr by (rule copy_runs_nonempty)
  then have neq: "tp' \<noteq> empty_para" by (auto simp: empty_para_def)
  have "copy_paragraph env rel p c temp w = (err, src', c\<lparr>content := content c @ [TParagraph tp']\<rparr>, w')"
    using False by (auto simp add: copy_paragraph_def Let_def tp0_def[symmetric] cn cr add_paragraph_def)
  with neq False show ?thesis by blast
qed

subsection \<open>A table inside a cell\<close>

lemma foldl_add_paragraph:
  "foldl (\<lambda>c x. add_paragraph c (f x)) c xs = c\<lparr>content := content c @ map (\<lambda>x. TParagraph (f x)) xs\<rparr>"
  by (induction xs arbitrary: c) (simp_all add: add_paragraph_def)

lemma new_para_restyle: "(new_para s)\<lparr>t_style := None\<rparr> = new_para s"
  by (simp add: new_para_def empty_para_def)

lemma copy_nested_table_eq:
  "copy_nested_table t c =
     c\<lparr>content := content c @ TParagraph (nested_marker (styles c)) #
          map (\<lambda>row. TParagraph (new_para (nested_row_text row))) (rows t)\<rparr>"
  unfolding copy_nested_table_def Let_def foldl_add_paragraph
  by (simp add: nested_marker_def add_paragraph_def new_para_restyle)

lemma t_para_text_new_para [simp]: "t_para_text (new_para s) = s"
  by (simp add: t_para_text_def new_para_def empty_para_def new_run_def)

lemma t_para_text_marker [simp]: "t_para_text (nested_marker sty) = ''[Nested Table Content Below]''"
  by (simp add: t_para_text_def nested_marker_def new_para_def empty_para_def new_run_def)

text \<open>
  \<^bold>\<open>Claim C5, as amended.\<close> A table copied into a cell adds no table to the cell and raises
  nothing: it adds the marker paragraph \<open>[Nested Table Content Below]\<close> and then one
  paragraph for each source row, whose text is the texts of the row's cells, each
  stripped of the white space at its ends, joined by a tab.
\<close>

theorem nested_table_flattened:
  assumes "kind c = Cell"
  shows "copy_table env rel t c temp w =
           (None,
            c\<lparr>content := content c @ TParagraph (nested_marker (styles c)) #
                 map (\<lambda>row. TParagraph (new_para (nested_row_text row))) (rows t)\<rparr>,
            w)
         \<and> t_para_text (nested_marker (styles c)) = ''[Nested Table Content Below]''
         \<and> t_para_text (new_para (nested_row_text row)) =
             join [CHR 0x09] (map (\<lambda>cell. strip (cell_text cell)) row)"
  using assms by (simp add: copy_table_def copy_nested_table_eq nested_row_text_def)

lemma padded_cells:
  "cell_text [Paragraph (styled_para ''Normal'' '' a '')] = '' a ''"
  "cell_text [Paragraph (styled_para ''Normal'' ''b'')] = ''b''"
  "strip '' a '' = ''a''" "strip ''b'' = ''b''"
  by (simp_all add: cell_text_def strip_def lstrip_def rstrip_def isspace_def)

theorem nested_table_flattened_witness:
  "kind target_cell = Cell \<and>
   copy_table env0 [] padded_table target_cell ''out/temp_images'' world0 =
     (None,
      target_cell\<lparr>content :=
         [TParagraph (nested_marker [''Normal'', ''Caption'']),
          TParagraph (new_para (''a'' @ [CHR 0x09] @ ''b''))]\<rparr>,
      world0)"
proof -
  have k: "kind target_cell = Cell" by (simp add: target_cell_def)
  have r: "nested_row_text [[Paragraph (styled_para ''Normal'' '' a '')], [Paragraph (styled_para ''Normal'' ''b'')]]
            = ''a'' @ [CHR 0x09] @ ''b''"
    by (simp add: nested_row_text_def padded_cells)
  show ?thesis
    using k nested_table_flattened[OF k, of env0 "[]" padded_table "''out/temp_images''" world0]
    by (simp add: padded_table_def r target_cell_def)
qed

text \<open>
  The claim as stated, with the cell texts as they are, fails for the table whose first
  cell has the text \<open>a\<close> between two blanks: the paragraph written for its row has the
  text \<open>a\<close>, tab, \<open>b\<close>, while the cell texts joined by a tab keep the blanks.
\<close>

theorem nested_row_text_strips_counterexample:
  "copy_table env0 [] padded_table target_cell ''out/temp_images'' world0 =
     (None,
      target_cell\<lparr>content :=
         [TParagraph (nested_marker [''Normal'', ''Caption'']),
          TParagraph (new_para (''a'' @ [CHR 0x09] @ ''b''))]\<rparr>,
      world0)
   \<and> rows padded_table = [[[Paragraph (styled_para ''Normal'' '' a '')], [Paragraph (styled_para ''Normal'' ''b'')]]]
   \<and> join [CHR 0x09] (map cell_text [[Paragraph (styled_para ''Normal'' '' a '')], [Paragraph (styled_para ''Normal'' ''b'')]])
       = '' a '' @ [CHR 0x09] @ ''b''
   \<and> t_para_text (new_para (''a'' @ [CHR 0x09] @ ''b'')) \<noteq> '' a '' @ [CHR 0x09] @ ''b''"
proof -
  have r: "nested_row_text [[Paragraph (styled_para ''Normal'' '' a '')], [Paragraph (styled_para ''Normal'' ''b'')]]
            = ''a'' @ [CHR 0x09] @ ''b''"
    by (simp add: nested_row_text_def padded_cells)
  have A: "copy_table env0 [] padded_table target_cell ''out/temp_images'' world0 =
     (None,
      target_cell\<lparr>content :=
         [TParagraph (nested_marker [''Normal'', ''Caption'']),
          TParagraph (new_para (''a'' @ [CHR 0x09] @ ''b''))]\<rparr>,
      world0)"
    by (simp add: copy_table_def copy_nested_table_eq padded_table_def r target_cell_def)
  have B: "join [CHR 0x09] (map cell_text [[Paragraph (styled_para ''Normal'' '' a '')], [Paragraph (styled_para ''Normal'' ''b'')]])
       = '' a '' @ [CHR 0x09] @ ''b''"
    by (simp add: padded_cells)
  show ?thesis using A B by (simp add: padded_table_def)
qed

subsection \<open>The numbering reference of the source\<close>

lemma copy_numbering_moves:
  assumes "pPr p = Some sp" "numPr sp = Some n"
  shows "copy_numbering p tp = (p\<lparr>pPr := Some (sp\<lparr>numPr := None\<rparr>)\<rparr>, tp\<lparr>t_pPr := Some \<lparr>numPr = Some n\<rparr>\<rparr>)"
  using assms by (simp add: copy_numbering_def Let_def split: option.splits)

text \<open>
  \<^bold>\<open>Claim C6.\<close> The claim says that copying leaves the source paragraph as it was, its
  numbering reference included. The code does not: for a paragraph that has a
  numbering reference and some text, \<^verbatim>\<open>copy_numbering\<close>, and so \<^verbatim>\<open>copy_paragraph\<close>, leave
  the source paragraph without its \<^verbatim>\<open>w:numPr\<close>, which is now in the target.
\<close>

theorem copy_numbering_takes_numPr_from_source:
  assumes "pPr p = Some sp" "numPr sp = Some n" "strip (para_text p) \<noteq> []"
  shows "fst (copy_numbering p tp) = p\<lparr>pPr := Some (sp\<lparr>numPr := None\<rparr>)\<rparr>
       \<and> fst (snd (copy_paragraph env rel p c temp w)) = p\<lparr>pPr := Some (sp\<lparr>numPr := None\<rparr>)\<rparr>
       \<and> p\<lparr>pPr := Some (sp\<lparr>numPr := None\<rparr>)\<rparr> \<noteq> p"
proof -
  have "numPr (sp\<lparr>numPr := None\<rparr>) \<noteq> numPr sp"
    using assms(2) by simp
  then have "sp\<lparr>numPr := None\<rparr> \<noteq> sp" by metis
  then have "pPr (p\<lparr>pPr := Some (sp\<lparr>numPr := None\<rparr>)\<rparr>) \<noteq> pPr p"
    using assms(1) by simp
  then have ne: "p\<lparr>pPr := Some (sp\<lparr>numPr := None\<rparr>)\<rparr> \<noteq> p" by metis
  show ?thesis
    using assms(3) ne
    by (simp add: copy_numbering_moves[OF assms(1,2)] copy_paragraph_def Let_def split_beta)
qed

theorem copy_numbering_takes_numPr_from_source_witness:
  "pPr numbered_para = Some \<lparr>numPr = Some \<lparr>numId = 1, ilvl = 0\<rparr>\<rparr>
   \<and> fst (snd (copy_paragraph env0 [] numbered_para new_document ''out/temp_images'' world0))
       = numbered_para\<lparr>pPr := Some \<lparr>numPr = None\<rparr>\<rparr>
   \<and> numbered_para\<lparr>pPr := Some \<lparr>numPr = None\<rparr>\<rparr> \<noteq> numbered_para"
proof -
  have a: "pPr numbered_para = Some \<lparr>numPr = Some \<lparr>numId = 1, ilvl = 0\<rparr>\<rparr>"
    by (simp add: numbered_para_def)
  have b: "numPr \<lparr>numPr = Some \<lparr>numId = 1, ilvl = 0\<rparr>\<rparr> = Some \<lparr>numId = 1, ilvl = 0\<rparr>" by simp
  have c: "strip (para_text numbered_para) \<noteq> []"
    by (simp add: numbered_para_def para_text_def text_run_def strip_def lstrip_def rstrip_def isspace_def)
  show ?thesis
    using a copy_numbering_takes_numPr_from_source[OF a b c, of empty_para env0 "[]" new_document
       "''out/temp_images''" world0]
    by simp
qed

subsection \<open>The scratch directory\<close>

lemma makedirs_ok:
  "makedirs env w p = (None, w') \<Longrightarrow>
     p \<in> set (dirs w') \<and> files w' = files w \<and> progress w' = progress w"
  by (auto simp: makedirs_def split: if_splits)

lemma write_file_dirs: "write_file env w p d = (err, w') \<Longrightarrow> dirs w' = dirs w"
  by (auto simp: write_file_def split: if_splits)

lemma extract_image_dirs: "extract_image env w p b = (err, w') \<Longrightarrow> dirs w' = dirs w"
  by (auto simp: extract_image_def write_file_dirs split: if_splits)

lemma copy_drawing_dirs:
  "copy_drawing env rel temp d tp w = (err, tp', w') \<Longrightarrow> dirs w' = dirs w"
  by (auto simp: copy_drawing_def Let_def dest: extract_image_dirs
           split: list.splits option.splits part.splits if_splits prod.splits)

lemma copy_drawings_dirs:
  "copy_drawings env rel temp ds tp w = (err, tp', w') \<Longrightarrow> dirs w' = dirs w"
proof (induction ds arbitrary: tp w)
  case Nil
  then show ?case by simp
next
  case (Cons d ds)
  obtain e1 tp1 w1 where d: "copy_drawing env rel temp d tp w = (e1, tp1, w1)"
    by (cases "copy_drawing env rel temp d tp w") auto
  have d1: "dirs w1 = dirs w" using d by (rule copy_drawing_dirs)
  show ?case
  proof (cases e1)
    case None
    then have "copy_drawings env rel temp ds tp1 w1 = (err, tp', w')"
      using Cons.prems d by simp
    then show ?thesis using Cons.IH d1 by simp
  next
    case (Some e)
    then show ?thesis using Cons.prems d d1 by simp
  qed
qed

lemma copy_runs_dirs:
  "copy_runs env rel temp rs tp w = (err, tp', w') \<Longrightarrow> dirs w' = dirs w"
proof (induction rs arbitrary: tp w)
  case Nil
  then show ?case by simp
next
  case (Cons r rs)
  obtain e1 tp1 w1 where d: "copy_drawings env rel temp (drawings r) (add_run tp (copy_run r)) w = (e1, tp1, w1)"
    by (cases "copy_drawings env rel temp (drawings r) (add_run tp (copy_run r)) w") auto
  have d1: "dirs w1 = dirs w" using d by (rule copy_drawings_dirs)
  show ?case
  proof (cases e1)
    case None
    then have "copy_runs env rel temp rs tp1 w1 = (err, tp', w')"
      using Cons.prems d by simp
    then show ?thesis using Cons.IH d1 by simp
  next
    case (Some e)
    then show ?thesis using Cons.prems d d1 by simp
  qed
qed

lemma copy_paragraph_dirs:
  "copy_paragraph env rel p c temp w = (err, p', c', w') \<Longrightarrow> dirs w' = dirs w"
  by (auto simp: copy_paragraph_def Let_def dest: copy_runs_dirs split: if_splits prod.splits)

lemma copy_cell_blocks_dirs:
  "copy_cell_blocks env rel bs c temp w = (err, c', w') \<Longrightarrow> dirs w' = dirs w"
proof (induction env rel bs c temp w rule: copy_cell_blocks.induct)
  case (1 env rel target_cell temp_img_dir w)
  then show ?case by simp
next
  case (2 env rel p bs target_cell temp_img_dir w)
  obtain e1 p1 c1 w1 where d: "copy_paragraph env rel p target_cell temp_img_dir w = (e1, p1, c1, w1)"
    by (cases "copy_paragraph env rel p target_cell temp_img_dir w") auto
  have d1: "dirs w1 = dirs w" using d by (rule copy_paragraph_dirs)
  show ?case
  proof (cases e1)
    case None
    then show ?thesis using "2.prems" "2.IH"[OF d[symmetric] refl refl] d d1 by simp
  next
    case (Some e)
    then show ?thesis using "2.prems" d d1 by simp
  qed
next
  case (3 env rel t bs target_cell temp_img_dir w)
  then show ?case by simp
qed

lemma copy_cells_dirs:
  "copy_cells env rel temp sty cells i row w = (err, row', w') \<Longrightarrow> dirs w' = dirs w"
proof (induction cells arbitrary: i row w)
  case Nil
  then show ?case by simp
next
  case (Cons cell cells)
  show ?case
  proof (cases "i \<ge> length row")
    case True
    then show ?thesis using Cons.prems by simp
  next
    case False
    obtain e1 c1 w1 where d: "copy_cell_blocks env rel cell \<lparr>kind = Cell, styles = sty, content = []\<rparr> temp w = (e1, c1, w1)"
      by (cases "copy_cell_blocks env rel cell \<lparr>kind = Cell, styles = sty, content = []\<rparr> temp w") auto
    have d1: "dirs w1 = dirs w" using d by (rule copy_cell_blocks_dirs)
    show ?thesis
    proof (cases e1)
      case None
      then have "copy_cells env rel temp sty cells (i + 1) (row[i := content c1]) w1 = (err, row', w')"
        using Cons.prems d False by simp
      then show ?thesis using Cons.IH d1 by simp
    next
      case (Some e)
      then show ?thesis using Cons.prems d d1 False by simp
    qed
  qed
qed

lemma copy_rows_dirs:
  "copy_rows env rel temp sty ncols rws acc w = (err, acc', w') \<Longrightarrow> dirs w' = dirs w"
proof (induction rws arbitrary: acc w)
  case Nil
  then show ?case by simp
next
  case (Cons r rws)
  obtain e1 r1 w1 where d: "copy_cells env rel temp sty r 0 (replicate ncols [TParagraph empty_para]) w = (e1, r1, w1)"
    by (cases "copy_cells env rel temp sty r 0 (replicate ncols [TParagraph empty_para]) w") auto
  have d1: "dirs w1 = dirs w" using d by (rule copy_cells_dirs)
  show ?case
  proof (cases e1)
    case None
    then have "copy_rows env rel temp sty ncols rws (acc @ [r1]) w1 = (err, acc', w')"
      using Cons.prems d by (simp add: Let_def)
    then show ?thesis using Cons.IH d1 by simp
  next
    case (Some e)
    then show ?thesis using Cons.prems d d1 by (simp add: Let_def)
  qed
qed

lemma copy_table_dirs:
  "copy_table env rel t c temp w = (err, c', w') \<Longrightarrow> dirs w' = dirs w"
  by (auto simp: copy_table_def Let_def dest: copy_rows_dirs split: container_kind.splits prod.splits)

lemma copy_section_blocks_dirs:
  "copy_section_blocks env rel bs c temp w = (err, c', w') \<Longrightarrow> dirs w' = dirs w"
proof (induction env rel bs c temp w rule: copy_section_blocks.induct)
  case (1 env rel current_doc temp_img_dir w)
  then show ?case by simp
next
  case (2 env rel p bs current_doc temp_img_dir w)
  obtain e1 p1 c1 w1 where d: "copy_paragraph env rel p current_doc temp_img_dir w = (e1, p1, c1, w1)"
    by (cases "copy_paragraph env rel p current_doc temp_img_dir w") auto
  have d1: "dirs w1 = dirs w" using d by (rule copy_paragraph_dirs)
  show ?case
  proof (cases e1)
    case None
    then show ?thesis using "2.prems" "2.IH"[OF d[symmetric] refl refl] d d1 by simp
  next
    case (Some e)
    then show ?thesis using "2.prems" d d1 by simp
  qed
next
  case (3 env rel t bs current_doc temp_img_dir w)
  obtain e1 c1 w1 where d: "copy_table env rel t current_doc temp_img_dir w = (e1, c1, w1)"
    by (cases "copy_table env rel t current_doc temp_img_dir w") auto
  have d1: "dirs w1 = dirs w" using d by (rule copy_table_dirs)
  show ?case
  proof (cases e1)
    case None
    then show ?thesis using "3.prems" "3.IH"[OF d[symmetric] refl] d d1 by simp
  next
    case (Some e)
    then show ?thesis using "3.prems" d d1 by simp
  qed
qed

lemma build_section_dirs:
  "build_section env doc temp bs w = (err, d, w') \<Longrightarrow> dirs w' = dirs w"
  by (auto simp: build_section_def Let_def dest: copy_section_blocks_dirs split: prod.splits)

lemma build_sections_dirs:
  "build_sections env doc temp segs built w = (err, built', w') \<Longrightarrow> dirs w' = dirs w"
proof (induction segs arbitrary: built w)
  case Nil
  then show ?case by simp
next
  case (Cons sg segs)
  obtain title bs where sg: "sg = (title, bs)" by (cases sg) auto
  obtain e1 d1 w1 where d: "build_section env doc temp bs w = (e1, d1, w1)"
    by (cases "build_section env doc temp bs w") auto
  have dd: "dirs w1 = dirs w" using d by (rule build_section_dirs)
  show ?case
  proof (cases e1)
    case None
    then have "build_sections env doc temp segs (built @ [(title, d1)]) w1 = (err, built', w')"
      using Cons.prems d sg by simp
    then show ?thesis using Cons.IH dd by simp
  next
    case (Some e)
    then show ?thesis using Cons.prems d dd sg by simp
  qed
qed

lemma save_sections_dirs:
  "save_sections env out cb n i built w = (err, w') \<Longrightarrow> dirs w' = dirs w"
proof (induction built arbitrary: i w)
  case Nil
  then show ?case by simp
next
  case (Cons s built)
  obtain title d where s: "s = (title, d)" by (cases s) auto
  obtain e1 w1 where wf: "write_file env w (out_path out i title) (Docx d) = (e1, w1)"
    by (cases "write_file env w (out_path out i title) (Docx d)") auto
  have dd: "dirs w1 = dirs w" using wf by (rule write_file_dirs)
  show ?case
  proof (cases e1)
    case None
    then have "save_sections env out cb n (i + 1) built
        (if cb then w1\<lparr>progress := progress w1 @ [(i + 1, n)]\<rparr> else w1) = (err, w')"
      using Cons.prems wf s by simp
    then have "dirs w' = dirs (if cb then w1\<lparr>progress := progress w1 @ [(i + 1, n)]\<rparr> else w1)"
      by (rule Cons.IH)
    then show ?thesis using dd by simp
  next
    case (Some e)
    then show ?thesis using Cons.prems wf dd s by simp
  qed
qed

lemma split_success_cases:
  assumes "split_docx_by_heading_with_images env w docx_path output_dir hs cb = (Inr n, w')"
      and "package_reader env docx_path = Some doc" "body doc \<noteq> []"
  obtains w1 w2 segs built w3 w4 where
    "makedirs env w output_dir = (None, w1)"
    "makedirs env w1 (path_join output_dir ''temp_images'') = (None, w2)"
    "segment (body doc) hs = Inr segs"
    "build_sections env doc (path_join output_dir ''temp_images'') segs [] w2 = (None, built, w3)"
    "save_sections env output_dir cb (length built) 0 built w3 = (None, w4)"
    "n = length built"
    "(path_exists w4 (path_join output_dir ''temp_images'')
        \<and> rmtree w4 (path_join output_dir ''temp_images'') = (None, w'))
     \<or> (\<not> path_exists w4 (path_join output_dir ''temp_images'') \<and> w' = w4)"
proof -
  define temp where "temp = path_join output_dir ''temp_images''"
  obtain e1 w1 where m1: "makedirs env w output_dir = (e1, w1)"
    by (cases "makedirs env w output_dir") auto
  have e1: "e1 = None"
    using assms(1) m1 by (cases e1) (simp_all add: split_docx_by_heading_with_images_def)
  obtain e2 w2 where m2: "makedirs env w1 temp = (e2, w2)"
    by (cases "makedirs env w1 temp") auto
  have e2: "e2 = None"
    using assms(1) m1 e1 m2
    by (cases e2) (simp_all add: split_docx_by_heading_with_images_def Let_def temp_def)
  obtain segs where sg: "segment (body doc) hs = Inr segs"
    using segment_total by blast
  obtain e3 built w3 where b: "build_sections env doc temp segs [] w2 = (e3, built, w3)"
    by (cases "build_sections env doc temp segs [] w2") auto
  have e3: "e3 = None"
    using assms m1 e1 m2 e2 sg b
    by (cases e3) (simp_all add: split_docx_by_heading_with_images_def Let_def temp_def)
  obtain e4 w4 where s: "save_sections env output_dir cb (length built) 0 built w3 = (e4, w4)"
    by (cases "save_sections env output_dir cb (length built) 0 built w3") auto
  have e4: "e4 = None"
    using assms m1 e1 m2 e2 sg b e3 s
    by (cases e4) (simp_all add: split_docx_by_heading_with_images_def Let_def temp_def)
  have fin: "n = length built \<and>
     ((path_exists w4 temp \<and> rmtree w4 temp = (None, w')) \<or> (\<not> path_exists w4 temp \<and> w' = w4))"
    using assms m1 e1 m2 e2 sg b e3 s e4
    by (cases "rmtree w4 temp"; cases "fst (rmtree w4 temp)")
       (auto simp add: split_docx_by_heading_with_images_def Let_def temp_def split: if_splits)
  show ?thesis
    using that[of w1 w2 segs built w3 w4] m1 e1 m2 e2 sg b e3 s e4 fin
    unfolding temp_def by blast
qed

lemma rmtree_removes:
  assumes "rmtree w p = (None, w')"
  shows "p \<notin> set (dirs w') \<and> (\<forall>d\<in>set (dirs w'). \<not> under p d)
         \<and> (\<forall>f\<in>set (files w'). \<not> under p (fst f))"
  using assms by (auto simp: rmtree_def split: if_splits)

text \<open>
  \<^bold>\<open>Claim C7, as amended.\<close> When a pass over a source that has at least one top-level
  block returns, the scratch directory \<open>temp_images\<close> under the output directory does
  not exist any more, and no directory or file under it does.
\<close>

theorem scratch_dir_removed_when_pass_completes:
  assumes "split_docx_by_heading_with_images env w docx_path output_dir hs cb = (Inr n, w')"
      and "package_reader env docx_path = Some doc" "body doc \<noteq> []"
  shows "path_join output_dir ''temp_images'' \<notin> set (dirs w')
       \<and> (\<forall>d\<in>set (dirs w'). \<not> under (path_join output_dir ''temp_images'') d)
       \<and> (\<forall>f\<in>set (files w'). \<not> under (path_join output_dir ''temp_images'') (fst f))"
proof -
  from assms obtain w1 w2 segs built w3 w4 where
    m2: "makedirs env w1 (path_join output_dir ''temp_images'') = (None, w2)" and
    b: "build_sections env doc (path_join output_dir ''temp_images'') segs [] w2 = (None, built, w3)" and
    s: "save_sections env output_dir cb (length built) 0 built w3 = (None, w4)" and
    fin: "(path_exists w4 (path_join output_dir ''temp_images'')
        \<and> rmtree w4 (path_join output_dir ''temp_images'') = (None, w'))
     \<or> (\<not> path_exists w4 (path_join output_dir ''temp_images'') \<and> w' = w4)"
    by (rule split_success_cases)
  have "path_join output_dir ''temp_images'' \<in> set (dirs w2)"
    using makedirs_ok[OF m2] by simp
  then have "path_join output_dir ''temp_images'' \<in> set (dirs w4)"
    using build_sections_dirs[OF b] save_sections_dirs[OF s] by simp
  then have "path_exists w4 (path_join output_dir ''temp_images'')"
    by (simp add: path_exists_def)
  with fin have "rmtree w4 (path_join output_dir ''temp_images'') = (None, w')" by blast
  then show ?thesis by (rule rmtree_removes)
qed

text \<open>
  \<^bold>\<open>Claim C3.\<close> For a source without top-level blocks the script returns 0 and writes
  no file, as the claim says; but it has made the scratch directory before it reads the
  source, and it returns without removing it: the directory exists after the call.
\<close>

theorem empty_source_keeps_scratch_dir:
  assumes "package_reader env docx_path = Some doc" "body doc = []"
      and "makedirs env w output_dir = (None, w1)"
      and "makedirs env w1 (path_join output_dir ''temp_images'') = (None, w2)"
  shows "split_docx_by_heading_with_images env w docx_path output_dir hs cb = (Inr 0, w2)
       \<and> files w2 = files w
       \<and> path_join output_dir ''temp_images'' \<in> set (dirs w2)
       \<and> path_exists w2 (path_join output_dir ''temp_images'')"
  using assms makedirs_ok[OF assms(3)] makedirs_ok[OF assms(4)]
  by (simp add: split_docx_by_heading_with_images_def Let_def path_exists_def)

lemma reader_env_sel [simp]:
  "writable (reader_env doc wr) = wr" "package_reader (reader_env doc wr) p = Some doc"
  "template_styles (reader_env doc wr) = [''Normal'', ''Caption'']"
  by (simp_all add: reader_env_def)

lemma temp_out: "path_join ''out'' ''temp_images'' = ''out/temp_images''"
  by (simp add: path_join_def)

lemma makedirs_out:
  "wr ''out'' \<Longrightarrow> makedirs (reader_env doc wr) empty_world ''out''
     = (None, \<lparr>dirs = [''out''], files = [], progress = []\<rparr>)"
  "wr ''out/temp_images'' \<Longrightarrow>
   makedirs (reader_env doc wr) \<lparr>dirs = [''out''], files = [], progress = []\<rparr> ''out/temp_images''
     = (None, \<lparr>dirs = [''out'', ''out/temp_images''], files = [], progress = []\<rparr>)"
  by (simp_all add: makedirs_def empty_world_def)

lemma segment_heading: "segment (body heading_doc) ''Heading 1''
   = Inr [(''A'', [Paragraph (styled_para ''Heading 1'' ''A'')])]"
proof -
  have idx: "section_indices (Paragraph (styled_para ''Heading 1'' ''A'')) [] ''Heading 1'' = [0, 1]"
    by (simp add: section_indices_def)
  show ?thesis
    by (simp add: heading_doc_def segment_def idx section_at_def slice_def section_title_def
        strip_scenario)
qed

lemma copy_run_text_run: "copy_run (text_run s) = new_run s"
  by (simp add: copy_run_def text_run_def new_run_def)

lemma copy_paragraph_heading:
  "copy_paragraph env rel (styled_para ''Heading 1'' ''A'') c temp w =
     (None, styled_para ''Heading 1'' ''A'',
      add_paragraph c \<lparr>t_style = Some ''Heading 1'', t_alignment = None, t_pPr = None,
                        t_runs = [new_run ''A'']\<rparr>, w)"
proof -
  have r: "runs (styled_para ''Heading 1'' ''A'') = [text_run ''A'']"
          "alignment (styled_para ''Heading 1'' ''A'') = None"
          "drawings (text_run ''A'') = []"
    by (simp_all add: styled_para_def text_run_def)
  have cn: "copy_numbering (styled_para ''Heading 1'' ''A'') tp = (styled_para ''Heading 1'' ''A'', tp)" for tp
    by (simp add: copy_numbering_def styled_para_def)
  show ?thesis
    by (simp add: copy_paragraph_def strip_scenario r cn Let_def copy_run_text_run add_run_def
        empty_para_def)
qed

lemma build_heading:
  "build_sections (reader_env heading_doc wr) heading_doc temp
     [(''A'', [Paragraph (styled_para ''Heading 1'' ''A'')])] [] w
   = (None, [(''A'', heading_copy)], w)"
  by (simp add: build_section_def Let_def copy_paragraph_heading add_paragraph_def
      heading_doc_def heading_copy_def)

lemma format_02d_1: "format_02d (Suc 0) = ''01''"
  by (simp add: format_02d_def str_nat.simps digit_char_def)

lemma safe_title_A: "safe_title ''A'' = ''A''"
  by (simp add: safe_title_def isalnum_def rstrip_def isspace_def)

lemma out_path_A: "out_path ''out'' 0 ''A'' = ''out/01_A.docx''"
  by (simp add: out_path_def out_name_def format_02d_1 safe_title_A path_join_def)

theorem empty_source_keeps_scratch_dir_witness:
  "split_docx_by_heading_with_images (reader_env empty_doc (\<lambda>p. True)) empty_world ''in.docx''
      ''out'' ''Heading 1'' False
     = (Inr 0, \<lparr>dirs = [''out'', ''out/temp_images''], files = [], progress = []\<rparr>)
   \<and> files \<lparr>dirs = [''out'', ''out/temp_images''], files = [], progress = []\<rparr> = files empty_world
   \<and> ''out/temp_images'' \<in> set (dirs \<lparr>dirs = [''out'', ''out/temp_images''], files = [], progress = []\<rparr>)
   \<and> path_exists \<lparr>dirs = [''out'', ''out/temp_images''], files = [], progress = []\<rparr> ''out/temp_images''"
proof -
  have r: "package_reader (reader_env empty_doc (\<lambda>p. True)) ''in.docx'' = Some empty_doc" by simp
  have b: "body empty_doc = []" by (simp add: empty_doc_def)
  have m1: "makedirs (reader_env empty_doc (\<lambda>p. True)) empty_world ''out''
     = (None, \<lparr>dirs = [''out''], files = [], progress = []\<rparr>)"
    by (rule makedirs_out) simp
  have m2: "makedirs (reader_env empty_doc (\<lambda>p. True)) \<lparr>dirs = [''out''], files = [], progress = []\<rparr>
      (path_join ''out'' ''temp_images'')
     = (None, \<lparr>dirs = [''out'', ''out/temp_images''], files = [], progress = []\<rparr>)"
    unfolding temp_out by (rule makedirs_out) simp
  show ?thesis
    using empty_source_keeps_scratch_dir[OF r b m1 m2, of "''Heading 1''" False]
    by (simp add: temp_out)
qed

text \<open>
  The claim as stated fails for a pass that a write error ends: the source has the one
  heading \<open>A\<close> and the file \<open>out/01_A.docx\<close> cannot be written. \<^verbatim>\<open>save\<close> raises, and the
  scratch directory that the pass made is still there.
\<close>

theorem failed_save_keeps_scratch_dir_counterexample:
  "split_docx_by_heading_with_images (reader_env heading_doc (\<lambda>p. p \<noteq> ''out/01_A.docx''))
      empty_world ''in.docx'' ''out'' ''Heading 1'' False
     = (Inl OSError, \<lparr>dirs = [''out'', ''out/temp_images''], files = [], progress = []\<rparr>)
   \<and> path_exists \<lparr>dirs = [''out'', ''out/temp_images''], files = [], progress = []\<rparr>
        (path_join ''out'' ''temp_images'')"
proof -
  have m1: "makedirs (reader_env heading_doc (\<lambda>p. p \<noteq> ''out/01_A.docx'')) empty_world ''out''
     = (None, \<lparr>dirs = [''out''], files = [], progress = []\<rparr>)"
    by (rule makedirs_out) simp
  have m2: "makedirs (reader_env heading_doc (\<lambda>p. p \<noteq> ''out/01_A.docx''))
      \<lparr>dirs = [''out''], files = [], progress = []\<rparr> ''out/temp_images''
     = (None, \<lparr>dirs = [''out'', ''out/temp_images''], files = [], progress = []\<rparr>)"
    by (rule makedirs_out) simp
  have ne: "body heading_doc \<noteq> []" by (simp add: heading_doc_def)
  have sv: "save_sections (reader_env heading_doc (\<lambda>p. p \<noteq> ''out/01_A.docx'')) ''out'' False (Suc 0) 0
       [(''A'', heading_copy)] \<lparr>dirs = [''out'', ''out/temp_images''], files = [], progress = []\<rparr>
     = (Some OSError, \<lparr>dirs = [''out'', ''out/temp_images''], files = [], progress = []\<rparr>)"
    by (simp add: out_path_A write_file_def)
  show ?thesis
    by (simp add: split_docx_by_heading_with_images_def temp_out m1 m2 ne segment_heading
        build_heading sv path_exists_def Let_def del: build_sections.simps save_sections.simps)
qed

theorem scratch_dir_removed_when_pass_completes_witness:
  "split_docx_by_heading_with_images (reader_env heading_doc (\<lambda>p. True))
      empty_world ''in.docx'' ''out'' ''Heading 1'' True
     = (Inr 1, \<lparr>dirs = [''out''], files = [(''out/01_A.docx'', Docx heading_copy)],
                 progress = [(1, 1)]\<rparr>)
   \<and> body heading_doc \<noteq> []
   \<and> ''out/temp_images'' \<notin> set (dirs \<lparr>dirs = [''out''], files = [(''out/01_A.docx'', Docx heading_copy)],
                 progress = [(1, 1)]\<rparr>)"
proof -
  have m1: "makedirs (reader_env heading_doc (\<lambda>p. True)) empty_world ''out''
     = (None, \<lparr>dirs = [''out''], files = [], progress = []\<rparr>)"
    by (rule makedirs_out) simp
  have m2: "makedirs (reader_env heading_doc (\<lambda>p. True))
      \<lparr>dirs = [''out''], files = [], progress = []\<rparr> ''out/temp_images''
     = (None, \<lparr>dirs = [''out'', ''out/temp_images''], files = [], progress = []\<rparr>)"
    by (rule makedirs_out) simp
  have ne: "body heading_doc \<noteq> []" by (simp add: heading_doc_def)
  have sv: "save_sections (reader_env heading_doc (\<lambda>p. True)) ''out'' True (Suc 0) 0
       [(''A'', heading_copy)] \<lparr>dirs = [''out'', ''out/temp_images''], files = [], progress = []\<rparr>
     = (None, \<lparr>dirs = [''out'', ''out/temp_images''],
                files = [(''out/01_A.docx'', Docx heading_copy)], progress = [(Suc 0, Suc 0)]\<rparr>)"
    by (simp add: out_path_A write_file_def)
  have rm: "rmtree \<lparr>dirs = [''out'', ''out/temp_images''],
                files = [(''out/01_A.docx'', Docx heading_copy)], progress = [(Suc 0, Suc 0)]\<rparr> ''out/temp_images''
     = (None, \<lparr>dirs = [''out''], files = [(''out/01_A.docx'', Docx heading_copy)],
                 progress = [(Suc 0, Suc 0)]\<rparr>)"
    by (simp add: rmtree_def under_def)
  have run: "split_docx_by_heading_with_images (reader_env heading_doc (\<lambda>p. True))
      empty_world ''in.docx'' ''out'' ''Heading 1'' True
     = (Inr 1, \<lparr>dirs = [''out''], files = [(''out/01_A.docx'', Docx heading_copy)],
                 progress = [(1, 1)]\<rparr>)"
    by (simp add: split_docx_by_heading_with_images_def temp_out m1 m2 ne segment_heading
        build_heading sv rm path_exists_def Let_def del: build_sections.simps save_sections.simps)
  have r: "package_reader (reader_env heading_doc (\<lambda>p. True)) ''in.docx'' = Some heading_doc"
    by simp
  show ?thesis
    using run ne scratch_dir_removed_when_pass_completes[OF run r ne]
    by (simp add: temp_out)
qed

subsection \<open>The names of the output files\<close>

lemma digit_char_cases:
  "d < 10 \<Longrightarrow> d = 0 \<or> d = 1 \<or> d = 2 \<or> d = 3 \<or> d = 4 \<or> d = 5 \<or> d = 6 \<or> d = 7 \<or> d = 8 \<or> d = (9::nat)"
  by arith

lemma digit_val_digit_char: "d < 10 \<Longrightarrow> digit_val (digit_char d) = d"
  using digit_char_cases[of d] by (auto simp: digit_val_def digit_char_def)

lemma digit_char_not_sep: "d < 10 \<Longrightarrow> digit_char d \<noteq> CHR ''_''"
  using digit_char_cases[of d] by (auto simp: digit_char_def)

lemma nat_of_digits_snoc: "nat_of_digits (s @ [c]) = 10 * nat_of_digits s + digit_val c"
  by (simp add: nat_of_digits_def)

lemma nat_of_digits_str_nat: "nat_of_digits (str_nat n) = n"
proof (induction n rule: str_nat.induct)
  case (1 n)
  show ?case
  proof (cases "n < 10")
    case True
    then show ?thesis
      by (subst str_nat.simps) (simp add: nat_of_digits_def digit_val_digit_char)
  next
    case False
    then have "nat_of_digits (str_nat n) = 10 * nat_of_digits (str_nat (n div 10)) + digit_val (digit_char (n mod 10))"
      by (subst str_nat.simps) (simp add: nat_of_digits_snoc)
    also have "\<dots> = 10 * (n div 10) + n mod 10"
      using 1[OF False] by (simp add: digit_val_digit_char)
    finally show ?thesis by simp
  qed
qed

lemma nat_of_digits_zeros: "nat_of_digits (replicate k (CHR ''0'') @ s) = nat_of_digits s"
proof -
  have "foldl (\<lambda>a c. 10 * a + digit_val c) 0 (replicate k (CHR ''0'')) = 0"
    by (induction k) (simp_all add: digit_val_def)
  then show ?thesis by (simp add: nat_of_digits_def)
qed

lemma nat_of_digits_format: "nat_of_digits (format_02d n) = n"
  by (simp add: format_02d_def nat_of_digits_zeros nat_of_digits_str_nat)

lemma str_nat_no_sep: "CHR ''_'' \<notin> set (str_nat n)"
proof (induction n rule: str_nat.induct)
  case (1 n)
  show ?case
  proof (cases "n < 10")
    case True
    then show ?thesis
      using digit_char_not_sep[of n] by (subst str_nat.simps) auto
  next
    case False
    then show ?thesis
      using 1[OF False] digit_char_not_sep[of "n mod 10"]
      by (subst str_nat.simps) auto
  qed
qed

lemma format_no_sep: "CHR ''_'' \<notin> set (format_02d n)"
  using str_nat_no_sep[of n] by (auto simp: format_02d_def)

lemma str_nat_nonempty: "str_nat n \<noteq> []"
  by (subst str_nat.simps) simp

lemma format_nonempty: "format_02d n \<noteq> []"
  by (simp add: format_02d_def str_nat_nonempty)

lemma out_name_prefix: "takeWhile (\<lambda>c. c \<noteq> CHR ''_'') (out_name i title) = format_02d (i + 1)"
proof -
  have "\<forall>c\<in>set (format_02d (i + 1)). c \<noteq> CHR ''_''"
    using format_no_sep[of "i + 1"] by auto
  then show ?thesis
    by (simp add: out_name_def takeWhile_append2)
qed

lemma out_name_inj: "out_name i t = out_name j t' \<Longrightarrow> i = j"
proof -
  assume "out_name i t = out_name j t'"
  then have "takeWhile (\<lambda>c. c \<noteq> CHR ''_'') (out_name i t) = takeWhile (\<lambda>c. c \<noteq> CHR ''_'') (out_name j t')"
    by simp
  then have "format_02d (i + 1) = format_02d (j + 1)" by (simp only: out_name_prefix)
  then have "nat_of_digits (format_02d (i + 1)) = nat_of_digits (format_02d (j + 1))" by simp
  then show "i = j" by (simp add: nat_of_digits_format)
qed

lemma format_hd_not_slash: "hd (format_02d n) \<noteq> CHR ''/''"
proof -
  have a: "hd (str_nat m) \<noteq> CHR ''/''" for m
  proof (induction m rule: str_nat.induct)
    case (1 m)
    show ?case
    proof (cases "m < 10")
      case True
      then show ?thesis
        using digit_char_cases[of m] by (subst str_nat.simps) (auto simp: digit_char_def)
    next
      case False
      then show ?thesis
        using 1[OF False] str_nat_nonempty[of "m div 10"] by (subst str_nat.simps) simp
    qed
  qed
  show ?thesis
    using a[of n] by (cases "2 - length (str_nat n)") (simp_all add: format_02d_def)
qed

lemma out_path_inj: "out_path d i t = out_path d j t' \<Longrightarrow> i = j"
proof -
  assume eq: "out_path d i t = out_path d j t'"
  have h: "hd (out_name k s) \<noteq> CHR ''/''" for k s
    using format_hd_not_slash[of "k + 1"] format_nonempty[of "k + 1"]
    by (simp add: out_name_def)
  have "out_name i t = out_name j t'"
    using eq h[of i t] h[of j t'] by (auto simp: out_path_def path_join_def split: if_splits)
  then show ?thesis by (rule out_name_inj)
qed

lemma section_paths_index:
  "p \<in> set (section_paths d i built) \<Longrightarrow> \<exists>k t. i \<le> k \<and> p = out_path d k t"
proof (induction built arbitrary: i)
  case Nil
  then show ?case by simp
next
  case (Cons s built)
  obtain title doc where s: "s = (title, doc)" by (cases s) auto
  show ?case
  proof (cases "p = out_path d i title")
    case True
    then show ?thesis by blast
  next
    case False
    then have "p \<in> set (section_paths d (i + 1) built)" using Cons.prems s by simp
    then obtain k t where "i + 1 \<le> k" "p = out_path d k t" using Cons.IH by blast
    then show ?thesis by (intro exI[of _ k] exI[of _ t]) simp
  qed
qed

lemma section_paths_distinct: "distinct (section_paths d i built)"
proof (induction built arbitrary: i)
  case Nil
  then show ?case by simp
next
  case (Cons s built)
  obtain title doc where s: "s = (title, doc)" by (cases s) auto
  have "out_path d i title \<notin> set (section_paths d (i + 1) built)"
  proof
    assume "out_path d i title \<in> set (section_paths d (i + 1) built)"
    then obtain k t where k: "i + 1 \<le> k" "out_path d i title = out_path d k t"
      using section_paths_index by blast
    then have "i = k" using out_path_inj by blast
    with k(1) show False by simp
  qed
  then show ?case using Cons.IH s by simp
qed

lemma save_sections_files:
  "save_sections env d cb n i built w = (None, w') \<Longrightarrow>
     set (map fst (files w')) = set (map fst (files w)) \<union> set (section_paths d i built)"
proof (induction built arbitrary: i w)
  case Nil
  then show ?case by simp
next
  case (Cons s built)
  obtain title doc where s: "s = (title, doc)" by (cases s) auto
  obtain e1 w1 where wf: "write_file env w (out_path d i title) (Docx doc) = (e1, w1)"
    by (cases "write_file env w (out_path d i title) (Docx doc)") auto
  have e1: "e1 = None" using Cons.prems wf s by (cases e1) simp_all
  have f1: "set (map fst (files w1)) = insert (out_path d i title) (set (map fst (files w)))"
    using wf e1 by (force simp: write_file_def split: if_splits)
  have "save_sections env d cb n (i + 1) built
        (if cb then w1\<lparr>progress := progress w1 @ [(i + 1, n)]\<rparr> else w1) = (None, w')"
    using Cons.prems wf e1 s by simp
  then have "set (map fst (files w')) =
      set (map fst (files (if cb then w1\<lparr>progress := progress w1 @ [(i + 1, n)]\<rparr> else w1)))
        \<union> set (section_paths d (i + 1) built)"
    by (rule Cons.IH)
  then show ?case using f1 s by auto
qed

text \<open>
  \<^bold>\<open>Claim C10.\<close> The paths that one pass saves its sections to are pairwise distinct,
  whatever the titles are (equal, or empty after sanitising): the file names are
  distinct because each starts with the digits of its own ordinal, counted from 1 and
  padded to two digits, up to the first underscore.
\<close>

theorem output_paths_distinct:
  "distinct (section_paths output_dir 0 built)
   \<and> distinct (map (\<lambda>i. out_name i (titles ! i)) [0..<length titles])
   \<and> takeWhile (\<lambda>c. c \<noteq> CHR ''_'') (out_name i title) = format_02d (i + 1)
   \<and> nat_of_digits (format_02d (i + 1)) = i + 1"
proof -
  have "inj_on (\<lambda>i. out_name i (titles ! i)) (set [0..<length titles])"
    by (rule inj_onI) (rule out_name_inj)
  then have "distinct (map (\<lambda>i. out_name i (titles ! i)) [0..<length titles])"
    by (simp add: distinct_map)
  then show ?thesis
    using section_paths_distinct[of output_dir 0 built] out_name_prefix[of i title]
      nat_of_digits_format[of "i + 1"]
    by blast
qed

subsection \<open>Where the earlier revision differs\<close>

text \<open>
  \<^verbatim>\<open>copy_paragraph\<close> of \<^verbatim>\<open>test2.py\<close> does not do what the three theorems on
  \<^verbatim>\<open>copy_paragraph\<close> of \<^verbatim>\<open>test3.py\<close> say. A drawing that cannot be reproduced as an image
  leaves no run at all in the target; an image whose drawing has no \<^verbatim>\<open>wp:extent\<close> is
  extracted to the scratch directory but not added; and a paragraph whose only run is
  white space is copied with its style and its run, where \<^verbatim>\<open>test3.py\<close> writes the empty
  paragraph.
\<close>

lemma test2_drops_drawing:
  assumes "blips d = [b]" "failure_of rel d = Some f"
  shows "copy_drawings_test2 env rel temp [d] tp w = (None, tp, w)"
  using assms
  by (auto simp: failure_of_def drawing_rId_def copy_blip_test2_def
           split: option.splits part.splits if_splits)

lemma test2_skips_image_without_extent:
  assumes "blips d = [Some rid]" "rid \<noteq> []" "map_of rel rid = Some (ImagePart image_bytes ext)"
    and "extent_elem d = None"
    and "extract_image env w (path_join temp (rid @ ''.'' @ ext)) image_bytes = (None, w')"
  shows "copy_drawings_test2 env rel temp [d] tp w = (None, tp, w')"
  using assms by (simp add: copy_blip_test2_def Let_def)

lemma strip_blanks: "strip ''  '' = []"
  by (simp add: strip_def lstrip_def rstrip_def isspace_def)

lemma test2_copies_blank_paragraph:
  "copy_paragraph_test2 env rel (styled_para sty ''  '') c temp w =
     (None, styled_para sty ''  '',
      add_paragraph c \<lparr>t_style = Some sty, t_alignment = None, t_pPr = None,
                        t_runs = [new_run ''  '']\<rparr>, w)"
  "copy_paragraph env rel (styled_para sty ''  '') c temp w =
     (None, styled_para sty ''  '', add_paragraph c empty_para, w)"
proof -
  have r: "runs (styled_para sty ''  '') = [text_run ''  '']"
          "alignment (styled_para sty ''  '') = None"
          "drawings (text_run ''  '') = []"
    by (simp_all add: styled_para_def text_run_def)
  have cn: "copy_numbering (styled_para sty ''  '') tp = (styled_para sty ''  '', tp)" for tp
    by (simp add: copy_numbering_def styled_para_def)
  show "copy_paragraph_test2 env rel (styled_para sty ''  '') c temp w =
     (None, styled_para sty ''  '',
      add_paragraph c \<lparr>t_style = Some sty, t_alignment = None, t_pPr = None,
                        t_runs = [new_run ''  '']\<rparr>, w)"
    by (simp add: copy_paragraph_test2_def strip_blanks r cn Let_def copy_run_text_run add_run_def
        empty_para_def)
  show "copy_paragraph env rel (styled_para sty ''  '') c temp w =
     (None, styled_para sty ''  '', add_paragraph c empty_para, w)"
    by (cases "kind c") (simp_all add: copy_paragraph_def strip_blanks r)
qed

end
